theory Spec2Isabelle
  imports Main "HOL-Library.AList"
begin

section \<open>Exceptions\<close>

text \<open>
  The Python exceptions the modelled functions raise or catch. Each constructor stands
  for the class together with its subclasses (\<open>OSError\<close> covers \<open>FileNotFoundError\<close>
  and \<open>PermissionError\<close>, \<open>UnicodeError\<close> covers \<open>UnicodeEncodeError\<close>), except
  that \<open>UnicodeError\<close> is kept apart from \<open>ValueError\<close>. All of them derive from
  \<open>Exception\<close> but \<open>KeyboardInterrupt\<close>, which derives from \<open>BaseException\<close>
  only: \<open>except Exception\<close> does not catch it.
\<close>

datatype exn =
    ValueError | TypeError | RuntimeError | AssertionError | KeyError
  | AttributeError | OSError | UnicodeError | TclError | KeyboardInterrupt

fun is_Exception :: "exn \<Rightarrow> bool" where
  "is_Exception KeyboardInterrupt = False"
| "is_Exception _ = True"

section \<open>Tabs (tabs.py)\<close>

text \<open>
  A tab is a Tk widget; \<open>widget\<close> is its widget name, which is its identity. A
  \<open>FileTab\<close> carries the fields its methods read and write: \<open>_path\<close>,
  \<open>_save_hash\<close>, \<open>_tokens\<close>, the name of \<open>_filetype\<close>, the title shown on
  the tab and the content of its text widget (without the newline Tk keeps at the end).
  The status line depends on the cursor position and is not modelled.
\<close>

record filetab =
  tab_path :: "string option"
  save_hash :: "string option"
  tokens :: "string list"
  filetype_name :: string
  title :: string
  content :: string

datatype tab = Tab (widget: nat) | FileTab (widget: nat) (fields: filetab)

fun is_FileTab :: "tab option \<Rightarrow> bool" where
  "is_FileTab (Some (FileTab w ft)) = True"
| "is_FileTab _ = False"

text \<open>The setter of the \<open>tokens\<close> property.\<close>

definition tokens_setter :: "filetab \<Rightarrow> string list \<Rightarrow> filetab" where
  "tokens_setter self new_tokens =
     (if length new_tokens > 0 then self\<lparr>tokens := new_tokens\<rparr> else self)"

subsection \<open>The content digest\<close>

text \<open>
  The text widget holds the content as lines, at least one; Tk ends the last line with
  a newline of its own, which is not part of the content.
\<close>

definition newline :: char where
  "newline = CHR 0x0A"

fun split_lines :: "string \<Rightarrow> string list" where
  "split_lines [] = [[]]"
| "split_lines (c # cs) =
     (if c = newline then [] # split_lines cs
      else (case split_lines cs of l # ls \<Rightarrow> (c # l) # ls | [] \<Rightarrow> [[c]]))"

fun join_lines :: "string list \<Rightarrow> string" where
  "join_lines [] = []"
| "join_lines [l] = l"
| "join_lines (l # ls) = l @ newline # join_lines ls"

text \<open>
  The queries \<open>iter_chunks\<close> makes, on the lines \<open>ls\<close> of the widget: the line
  number of \<open>index('N.0')\<close>, which is the end of the text when \<open>N\<close> is past the last
  line, and of \<open>index('end')\<close>; \<open>get('S.0', 'E.0')\<close> for \<open>E\<close> within the text, the
  lines \<open>S\<close> to \<open>E - 1\<close> with their newlines; and \<open>get('S.0', 'end - 1 char')\<close>, the
  lines from \<open>S\<close> on without the last newline.
\<close>

definition index_line :: "string list \<Rightarrow> nat \<Rightarrow> nat" where
  "index_line ls n = min n (length ls + 1)"

definition index_end :: "string list \<Rightarrow> nat" where
  "index_end ls = length ls + 1"

definition get_lines :: "string list \<Rightarrow> nat \<Rightarrow> nat \<Rightarrow> string" where
  "get_lines ls start end' = concat (map (\<lambda>l. l @ [newline]) (take (end' - start) (drop (start - 1) ls)))"

definition get_to_end :: "string list \<Rightarrow> nat \<Rightarrow> string" where
  "get_to_end ls start = join_lines (drop (start - 1) ls)"

text \<open>
  \<open>iter_chunks\<close>, with \<open>n = 100\<close> as every call has it; the chunks in the order they
  are yielded, from line \<open>start\<close> on.
\<close>

function iter_chunks_from :: "string list \<Rightarrow> nat \<Rightarrow> string list" where
  "iter_chunks_from ls start =
     (let end' = start + 100
      in if index_line ls end' = index_end ls then
           (let last_chunk = get_to_end ls start
            in if last_chunk \<noteq> [] then [last_chunk] else [])
         else get_lines ls start end' # iter_chunks_from ls end')"
  by pat_completeness auto
termination
  by (relation "measure (\<lambda>(ls, start). length ls + 1 - start)")
     (auto simp: index_line_def index_end_def)

declare iter_chunks_from.simps [simp del]

definition iter_chunks :: "filetab \<Rightarrow> string list" where
  "iter_chunks self = iter_chunks_from (split_lines (content self)) 1"

text \<open>
  What the digest depends on besides the content: the \<open>encoding\<close> of the settings,
  \<open>str.encode\<close> with \<open>errors='replace'\<close> (from an encoding and a text to bytes) and
  MD5 (from the bytes fed to the hash object to the hexadecimal digest).
\<close>

record env =
  encoding :: string
  encode :: "string \<Rightarrow> string \<Rightarrow> string"
  md5_hexdigest :: "string \<Rightarrow> string"

definition get_hash :: "env \<Rightarrow> filetab \<Rightarrow> string" where
  "get_hash E self =
     md5_hexdigest E
       (fold (\<lambda>chunk result. result @ encode E (encoding E) chunk) (iter_chunks self) [])"

definition is_saved :: "env \<Rightarrow> filetab \<Rightarrow> bool" where
  "is_saved E self \<longleftrightarrow> Some (get_hash E self) = save_hash self"

definition basename :: "string \<Rightarrow> string" where
  "basename p = rev (takeWhile (\<lambda>c. c \<noteq> CHR ''/'') (rev p))"

definition update_title :: "env \<Rightarrow> filetab \<Rightarrow> filetab" where
  "update_title E self =
     (let text = (case tab_path self of None \<Rightarrow> ''New File'' | Some p \<Rightarrow> basename p)
      in self\<lparr>title := (if \<not> is_saved E self then ''*'' @ text @ ''*'' else text)\<rparr>)"

definition mark_saved :: "env \<Rightarrow> filetab \<Rightarrow> filetab" where
  "mark_saved E self = update_title E (self\<lparr>save_hash := Some (get_hash E self)\<rparr>)"

text \<open>
  An edit of the text replaces the content of the widget. \<open>_update_title\<close> is bound
  to the widget's \<open><<ContentChanged>>\<close>, but nothing in the application generates
  that event: the title stays as it is.
\<close>

definition edit :: "filetab \<Rightarrow> string \<Rightarrow> filetab" where
  "edit self new_content = self\<lparr>content := new_content\<rparr>"

text \<open>
  The setter of \<open>path\<close>; \<open><<PathChanged>>\<close> is bound to \<open>_update_title\<close>, and
  \<open>os.path.normcase\<close> is the identity (as on POSIX).
\<close>

definition path_setter :: "env \<Rightarrow> filetab \<Rightarrow> string option \<Rightarrow> filetab" where
  "path_setter E self new_path =
     (let it_changes = (tab_path self \<noteq> new_path);
          self' = self\<lparr>tab_path := new_path\<rparr>
      in if it_changes then update_title E self' else self')"

section \<open>Writing files (utils.py, \<open>backup_open\<close>)\<close>

text \<open>
  The file system: the files by path, with their contents on the disk. \<open>shutil.copy\<close>,
  \<open>shutil.move\<close> and \<open>os.remove\<close> fail with \<open>OSError\<close> on a source that does not
  exist; they can also fail for a reason of the device or of the permissions, and
  \<open>fault\<close> is the exception the call raises then. \<open>shutil.copy\<close> may fail when it
  has created the copy and written a part of it: \<open>fault\<close> gives that content as
  well, \<open>None\<close> when no file has been created. \<open>shutil.move\<close> renames, the
  backup being beside the destination, and \<open>os.remove\<close> unlinks: when they fail they
  have changed nothing.
\<close>

type_synonym filesystem = "(string \<times> string) list"

definition path_exists :: "filesystem \<Rightarrow> string \<Rightarrow> bool" where
  "path_exists fs p \<longleftrightarrow> p \<in> set (map fst fs)"

definition copy ::
  "(exn \<times> string option) option \<Rightarrow> filesystem \<Rightarrow> string \<Rightarrow> string \<Rightarrow>
   (exn \<times> filesystem) + filesystem" where
  "copy fault fs src dst =
     (case fault of
        Some (e, part) \<Rightarrow>
          Inl (e, case part of None \<Rightarrow> fs | Some c \<Rightarrow> AList.update dst c fs)
      | None \<Rightarrow>
          (case map_of fs src of
             None \<Rightarrow> Inl (OSError, fs)
           | Some c \<Rightarrow> Inr (AList.update dst c fs)))"

definition move :: "exn option \<Rightarrow> filesystem \<Rightarrow> string \<Rightarrow> string \<Rightarrow> exn + filesystem" where
  "move fault fs src dst =
     (case fault of
        Some e \<Rightarrow> Inl e
      | None \<Rightarrow>
          (case map_of fs src of
             None \<Rightarrow> Inl OSError
           | Some c \<Rightarrow> Inr (AList.delete src (AList.update dst c fs))))"

definition remove :: "exn option \<Rightarrow> filesystem \<Rightarrow> string \<Rightarrow> exn + filesystem" where
  "remove fault fs p =
     (case fault of
        Some e \<Rightarrow> Inl e
      | None \<Rightarrow> if path_exists fs p then Inr (AList.delete p fs) else Inl OSError)"

text \<open>
  What can fail around one write through \<open>backup_open\<close>, each with the exception it
  raises then: the copy to the backup, \<open>open\<close> (which may have emptied the file
  when it fails, as it has when the encoding is not known), the move that restores the
  backup and the removal of the backup.
\<close>

record faults =
  copy_fault :: "(exn \<times> string option) option"
  open_fault :: "(exn \<times> bool) option"
  move_fault :: "exn option"
  remove_fault :: "exn option"

definition no_faults :: faults where
  "no_faults = \<lparr>copy_fault = None, open_fault = None, move_fault = None, remove_fault = None\<rparr>"

text \<open>
  Opening a file for writing empties it on the disk, or fails, with the file emptied
  (\<open>emptied\<close>) or as it was. The file object that
  \<open>open\<close> returns is buffered: \<open>f.write(s)\<close> puts \<open>s\<close> at the end of the buffer,
  and the file object writes its buffer out to the disk on its own, when it is full: all
  of it or the first part. The rest reaches the disk when the file is flushed or
  closed, which \<open>backup_open\<close> never does. So what happens while the body of the
  \<open>with\<close> statement runs is a sequence of these: a write to the file object; the
  file object writing the first \<open>n\<close> characters of its buffer out; an exception
  raised in the body.
\<close>

definition open_w ::
  "(exn \<times> bool) option \<Rightarrow> filesystem \<Rightarrow> string \<Rightarrow> (exn \<times> filesystem) + filesystem" where
  "open_w fault fs p =
     (case fault of
        Some (e, emptied) \<Rightarrow> Inl (e, if emptied then AList.update p [] fs else fs)
      | None \<Rightarrow> Inr (AList.update p [] fs))"

datatype file_event = Write string | Flush nat | Raise exn

text \<open>The file on the disk grows by what the file object writes out.\<close>

definition file_write :: "filesystem \<Rightarrow> string \<Rightarrow> string \<Rightarrow> filesystem" where
  "file_write fs p s = AList.update p ((case map_of fs p of None \<Rightarrow> [] | Some c \<Rightarrow> c) @ s) fs"

text \<open>
  The body run on the file object whose buffer holds \<open>buf\<close>: the exception raised in
  it, if any, the file system and the buffer then.
\<close>

fun run_body ::
  "filesystem \<Rightarrow> string \<Rightarrow> string \<Rightarrow> file_event list \<Rightarrow> exn option \<times> filesystem \<times> string" where
  "run_body fs p buf [] = (None, fs, buf)"
| "run_body fs p buf (Write s # evs) = run_body fs p (buf @ s) evs"
| "run_body fs p buf (Flush n # evs) = run_body (file_write fs p (take n buf)) p (drop n buf) evs"
| "run_body fs p buf (Raise e # evs) = (Some e, fs, buf)"

text \<open>
  \<open>yield open(path, ...)\<close> and the body run on it: the exception that reaches the
  \<open>try\<close> statement around the \<open>yield\<close>, if any, the file system then, and what
  the buffer of the file object still holds (nothing when there is no file object).
\<close>

definition with_file ::
  "(exn \<times> bool) option \<Rightarrow> filesystem \<Rightarrow> string \<Rightarrow> file_event list \<Rightarrow>
   exn option \<times> filesystem \<times> string" where
  "with_file fault fs p body =
     (case open_w fault fs p of
        Inl (e, fs') \<Rightarrow> (Some e, fs', [])
      | Inr fs' \<Rightarrow> run_body fs' p [] body)"

text \<open>The loop that finds a path for the backup.\<close>

function backup_name :: "filesystem \<Rightarrow> string \<Rightarrow> string \<Rightarrow> string" where
  "backup_name fs name ext =
     (if path_exists fs (name @ ext) then backup_name fs (name @ ''-backup'') ext else name @ ext)"
  by pat_completeness auto
termination
proof (relation "measure (\<lambda>(fs, name, ext). length (filter (\<lambda>p. length name + length ext \<le> length p) (map fst fs)))")
  show "wf (measure (\<lambda>(fs, name, ext). length (filter (\<lambda>p. length name + length ext \<le> length p) (map fst fs))))"
    by simp
next
  fix fs :: filesystem and name ext :: string
  assume ex: "path_exists fs (name @ ext)"
  have key: "length (filter P xs) < length (filter Q xs)"
    if "x \<in> set xs" "Q x" "\<not> P x" "\<And>y. P y \<Longrightarrow> Q y"
    for P Q :: "string \<Rightarrow> bool" and xs x
  proof -
    have "filter P xs = filter P (filter Q xs)"
      unfolding filter_filter using that(4) by (intro filter_cong) auto
    moreover have "length (filter P (filter Q xs)) < length (filter Q xs)"
      using that(1-3) by (intro length_filter_less [of x]) auto
    ultimately show ?thesis by simp
  qed
  have "length (filter (\<lambda>p. length (name @ ''-backup'') + length ext \<le> length p) (map fst fs))
      < length (filter (\<lambda>p. length name + length ext \<le> length p) (map fst fs))"
    by (rule key [of "name @ ext"]) (use ex in \<open>auto simp: path_exists_def\<close>)
  then show "((fs, name @ ''-backup'', ext), (fs, name, ext))
      \<in> measure (\<lambda>(fs, name, ext). length (filter (\<lambda>p. length name + length ext \<le> length p) (map fst fs)))"
    by simp
qed

declare backup_name.simps [simp del]

text \<open>
  \<open>with backup_open(path, 'w', ...) as f: body\<close>, with \<open>os.path.splitext\<close> as a
  parameter: the exception the statement raises, if any, the file system after it, and
  what the file object, which is still open, holds in its buffer. The \<open>except\<close>
  clause restores the backup for an \<open>Exception\<close> only, and raises what
  \<open>shutil.move\<close> raises when that fails; the \<open>else\<close> clause removes the backup.
  Once the backup has been moved back, the file of the file object is no longer the one
  at the path (as on POSIX): what the file object writes out later does not reach the
  destination.
\<close>

definition backup_open ::
  "(string \<Rightarrow> string \<times> string) \<Rightarrow> faults \<Rightarrow> filesystem \<Rightarrow> string \<Rightarrow> file_event list \<Rightarrow>
   exn option \<times> filesystem \<times> string" where
  "backup_open splitext F fs p body =
     (if path_exists fs p then
        (let (name, ext) = splitext p;
             backuppath = backup_name fs name ext
         in case copy (copy_fault F) fs p backuppath of
              Inl (e, fs') \<Rightarrow> (Some e, fs', [])
            | Inr fs1 \<Rightarrow>
                (case with_file (open_fault F) fs1 p body of
                   (Some e, fs2, buf) \<Rightarrow>
                     (if is_Exception e then
                        (case move (move_fault F) fs2 backuppath p of
                           Inl e' \<Rightarrow> (Some e', fs2, buf)
                         | Inr fs3 \<Rightarrow> (Some e, fs3, buf))
                      else (Some e, fs2, buf))
                 | (None, fs2, buf) \<Rightarrow>
                     (case remove (remove_fault F) fs2 backuppath of
                        Inl e' \<Rightarrow> (Some e', fs2, buf)
                      | Inr fs3 \<Rightarrow> (None, fs3, buf))))
      else with_file (open_fault F) fs p body)"

text \<open>
  Of a body, run on a file object with \<open>buf\<close> in its buffer: what it writes to the
  file object before it raises or ends; what of this and of the buffer reaches the disk,
  and what stays in the buffer; the first exception raised in it.
\<close>

fun written :: "file_event list \<Rightarrow> string" where
  "written [] = []"
| "written (Write s # evs) = s @ written evs"
| "written (Flush n # evs) = written evs"
| "written (Raise e # evs) = []"

fun flushed :: "string \<Rightarrow> file_event list \<Rightarrow> string" where
  "flushed buf [] = []"
| "flushed buf (Write s # evs) = flushed (buf @ s) evs"
| "flushed buf (Flush n # evs) = take n buf @ flushed (drop n buf) evs"
| "flushed buf (Raise e # evs) = []"

fun pending :: "string \<Rightarrow> file_event list \<Rightarrow> string" where
  "pending buf [] = buf"
| "pending buf (Write s # evs) = pending (buf @ s) evs"
| "pending buf (Flush n # evs) = pending (drop n buf) evs"
| "pending buf (Raise e # evs) = buf"

fun first_raise :: "file_event list \<Rightarrow> exn option" where
  "first_raise [] = None"
| "first_raise (Write s # evs) = first_raise evs"
| "first_raise (Flush n # evs) = first_raise evs"
| "first_raise (Raise e # evs) = Some e"

text \<open>
  What is at a destination that had content \<open>A\<close> when \<open>open\<close> and the body have
  run.
\<close>

fun on_disk :: "(exn \<times> bool) option \<Rightarrow> string \<Rightarrow> file_event list \<Rightarrow> string" where
  "on_disk None A body = flushed [] body"
| "on_disk (Some (e, emptied)) A body = (if emptied then [] else A)"

text \<open>
  The exception raised while the file is opened and written, if any; and the exception
  the whole \<open>with\<close> statement raises, if any, for a destination that existed or did
  not.
\<close>

definition raised :: "(exn \<times> bool) option \<Rightarrow> file_event list \<Rightarrow> exn option" where
  "raised fault body =
     (case fault of Some (e, emptied) \<Rightarrow> Some e | None \<Rightarrow> first_raise body)"

definition with_raises :: "faults \<Rightarrow> bool \<Rightarrow> file_event list \<Rightarrow> exn option" where
  "with_raises F existed body =
     (if existed then
        (case copy_fault F of
           Some (e, part) \<Rightarrow> Some e
         | None \<Rightarrow>
             (case raised (open_fault F) body of
                Some e \<Rightarrow>
                  (if is_Exception e
                   then (case move_fault F of Some e' \<Rightarrow> Some e' | None \<Rightarrow> Some e)
                   else Some e)
              | None \<Rightarrow> remove_fault F))
      else raised (open_fault F) body)"

section \<open>Saving a file tab (tabs.py, \<open>FileTab\<close>)\<close>

text \<open>
  What Python returns: \<open>True\<close>, \<open>False\<close> or \<open>None\<close>.
\<close>

datatype pyval = PTrue | PFalse | PNone

text \<open>
  The file that \<open>save\<close> writes is a text stream: \<open>f.write(chunk)\<close> encodes the
  chunk with the stream's incremental encoder, which is strict, and buffers the bytes.
  \<open>stream_encode\<close> gives these bytes, from the encoding, the chunks written before
  and the chunk; \<open>flush_after k\<close> says how much of its buffer the file object writes
  out during the write number \<open>k\<close>, if it does.
\<close>

record text_stream =
  stream_encode :: "string \<Rightarrow> string list \<Rightarrow> string \<Rightarrow> string"
  flush_after :: "nat \<Rightarrow> nat option"

text \<open>
  The body of the loop of \<open>save\<close>: one \<open>f.write\<close> for each chunk;
  \<open>write_fault\<close> names the write that raises, if one does, and its exception
  (\<open>UnicodeError\<close> for a text the encoding does not have, \<open>OSError\<close> for a failure
  of the device).
\<close>

definition save_body ::
  "env \<Rightarrow> text_stream \<Rightarrow> filetab \<Rightarrow> (nat \<times> exn) option \<Rightarrow> file_event list" where
  "save_body E S self write_fault =
     (let chunks = iter_chunks self;
          ws = map (\<lambda>k. Write (stream_encode S (encoding E) (take k chunks) (chunks ! k))
                          # (case flush_after S k of None \<Rightarrow> [] | Some n \<Rightarrow> [Flush n]))
                 [0 ..< length chunks]
      in case write_fault of
           None \<Rightarrow> concat ws
         | Some (k, e) \<Rightarrow> if k < length ws then concat (take k ws) @ [Raise e] else concat ws)"

text \<open>
  \<open>save\<close> for a tab whose path is \<open>p\<close>: the part of \<open>save\<close> after the test of
  \<open>self.path\<close>. The result is the value returned or the exception raised, the file
  system as it is when the value is returned (the file object has not been closed, and
  may still hold data in its buffer) and the tab. The \<open><<Save>>\<close> event and the error
  dialog change nothing of these.
\<close>

definition save_to ::
  "env \<Rightarrow> (string \<Rightarrow> string \<times> string) \<Rightarrow> text_stream \<Rightarrow> faults \<Rightarrow> (nat \<times> exn) option \<Rightarrow>
   filesystem \<Rightarrow> filetab \<Rightarrow> string \<Rightarrow> (exn + pyval) \<times> filesystem \<times> filetab" where
  "save_to E splitext S F write_fault fs self p =
     (case backup_open splitext F fs p (save_body E S self write_fault) of
        (Some e, fs', buf) \<Rightarrow>
          if e = OSError \<or> e = UnicodeError then (Inr PNone, fs', self) else (Inl e, fs', self)
      | (None, fs', buf) \<Rightarrow> (Inr PTrue, fs', mark_saved E self))"

text \<open>
  \<open>save_as\<close>; \<open>answer\<close> is what \<open>asksaveasfilename\<close> returns, empty when the user
  cancels. It calls \<open>save\<close> on a tab whose path it has just set.
\<close>

definition save_as ::
  "env \<Rightarrow> (string \<Rightarrow> string \<times> string) \<Rightarrow> text_stream \<Rightarrow> string \<Rightarrow> faults \<Rightarrow>
   (nat \<times> exn) option \<Rightarrow> filesystem \<Rightarrow> filetab \<Rightarrow> (exn + pyval) \<times> filesystem \<times> filetab" where
  "save_as E splitext S answer F write_fault fs self =
     (if answer = [] then (Inr PFalse, fs, self)
      else
        (case save_to E splitext S F write_fault fs (path_setter E self (Some answer)) answer of
           (Inl e, fs', self') \<Rightarrow> (Inl e, fs', self')
         | (Inr r, fs', self') \<Rightarrow> (Inr PTrue, fs', self')))"

definition save ::
  "env \<Rightarrow> (string \<Rightarrow> string \<times> string) \<Rightarrow> text_stream \<Rightarrow> string \<Rightarrow> faults \<Rightarrow>
   (nat \<times> exn) option \<Rightarrow> filesystem \<Rightarrow> filetab \<Rightarrow> (exn + pyval) \<times> filesystem \<times> filetab" where
  "save E splitext S answer F write_fault fs self =
     (case tab_path self of
        None \<Rightarrow> save_as E splitext S answer F write_fault fs self
      | Some p \<Rightarrow> save_to E splitext S F write_fault fs self p)"

text \<open>
  \<open>can_be_closed\<close>; \<open>asked\<close> is what \<open>askyesnocancel\<close> returns.
\<close>

definition can_be_closed ::
  "env \<Rightarrow> (string \<Rightarrow> string \<times> string) \<Rightarrow> text_stream \<Rightarrow> bool option \<Rightarrow> string \<Rightarrow> faults \<Rightarrow>
   (nat \<times> exn) option \<Rightarrow> filesystem \<Rightarrow> filetab \<Rightarrow> (exn + pyval) \<times> filesystem \<times> filetab" where
  "can_be_closed E splitext S asked answer F write_fault fs self =
     (if is_saved E self then (Inr PTrue, fs, self)
      else
        (case asked of
           None \<Rightarrow> (Inr PFalse, fs, self)
         | Some True \<Rightarrow> save E splitext S answer F write_fault fs self
         | Some False \<Rightarrow> (Inr PTrue, fs, self)))"

section \<open>The tab manager's selection (tabs.py, \<open>TabManager\<close>)\<close>

text \<open>
  \<open>TabManager\<close> is a \<open>ttk.Notebook\<close>. The notebook keeps its tabs in display
  order and the index of the current tab (none when it has no tabs); \<open>generated\<close>
  records the data of the \<open><<NewTab>>\<close> events the manager generates, oldest first.
\<close>

record tab_manager =
  tabs :: "tab list"
  current :: "nat option"
  generated :: "tab list"

text \<open>\<open>select()\<close> without an argument: the selected tab, or \<open>None\<close>.\<close>

definition select :: "tab_manager \<Rightarrow> tab option" where
  "select self =
     (case current self of
        None \<Rightarrow> None
      | Some i \<Rightarrow> if i < length (tabs self) then Some (tabs self ! i) else None)"

text \<open>
  The notebook operations the manager calls. \<open>index(tab)\<close> is the position of a tab
  of the notebook and fails with \<open>TclError\<close> for anything else. \<open>select(i)\<close> with
  an integer selects the tab at that position and fails with \<open>TclError\<close> when the
  position is out of bounds; \<open>select(tab)\<close> selects a tab of the notebook. \<open>add\<close>
  appends a new tab, which becomes the current one when it is the first.
\<close>

definition index :: "tab_manager \<Rightarrow> tab option \<Rightarrow> exn + nat" where
  "index self t =
     (case t of
        None \<Rightarrow> Inl TclError
      | Some tab \<Rightarrow>
          if widget tab \<in> set (map widget (tabs self))
          then Inr (length (takeWhile (\<lambda>x. widget x \<noteq> widget tab) (tabs self)))
          else Inl TclError)"

definition select_index :: "tab_manager \<Rightarrow> int \<Rightarrow> exn + tab_manager" where
  "select_index self i =
     (if 0 \<le> i \<and> i < int (length (tabs self)) then Inr (self\<lparr>current := Some (nat i)\<rparr>)
      else Inl TclError)"

definition select_tab :: "tab_manager \<Rightarrow> tab \<Rightarrow> exn + tab_manager" where
  "select_tab self tab =
     (case index self (Some tab) of
        Inl e \<Rightarrow> Inl e
      | Inr i \<Rightarrow> Inr (self\<lparr>current := Some i\<rparr>))"

definition add :: "tab_manager \<Rightarrow> tab \<Rightarrow> tab_manager" where
  "add self tab =
     self\<lparr>tabs := tabs self @ [tab],
          current := (case current self of None \<Rightarrow> Some (length (tabs self)) | Some i \<Rightarrow> Some i)\<rparr>"

text \<open>
  \<open>os.path.samefile\<close> compares what \<open>os.stat\<close> says of the two paths (the device
  and inode, here a number) and raises \<open>OSError\<close> when \<open>os.stat\<close> fails on either;
  \<open>stat\<close> is the file system's answer, \<open>None\<close> for a path it cannot stat.
\<close>

definition samefile :: "(string \<Rightarrow> nat option) \<Rightarrow> string \<Rightarrow> string \<Rightarrow> exn + bool" where
  "samefile stat f1 f2 =
     (case stat f1 of
        None \<Rightarrow> Inl OSError
      | Some s1 \<Rightarrow> (case stat f2 of None \<Rightarrow> Inl OSError | Some s2 \<Rightarrow> Inr (s1 = s2)))"

text \<open>\<open>Tab.equivalent\<close> and its override \<open>FileTab.equivalent\<close>.\<close>

definition equivalent :: "(string \<Rightarrow> nat option) \<Rightarrow> tab \<Rightarrow> tab \<Rightarrow> exn + bool" where
  "equivalent stat self other =
     (case self of
        Tab w \<Rightarrow> Inr False
      | FileTab w ft \<Rightarrow>
          (case other of
             Tab w' \<Rightarrow> Inr False
           | FileTab w' ft' \<Rightarrow>
               (case tab_path ft of
                  None \<Rightarrow> Inr False
                | Some p \<Rightarrow>
                    (case tab_path ft' of
                       None \<Rightarrow> Inr False
                     | Some p' \<Rightarrow> samefile stat p p'))))"

text \<open>
  \<open>add_tab\<close>. The loop over \<open>self.tabs()\<close> returns the first existing tab the new
  one is equivalent to, \<open>None\<close> when it ends without one.
\<close>

fun find_equivalent :: "(string \<Rightarrow> nat option) \<Rightarrow> tab \<Rightarrow> tab list \<Rightarrow> exn + tab option" where
  "find_equivalent stat tab [] = Inr None"
| "find_equivalent stat tab (existing_tab # rest) =
     (case equivalent stat tab existing_tab of
        Inl e \<Rightarrow> Inl e
      | Inr True \<Rightarrow> Inr (Some existing_tab)
      | Inr False \<Rightarrow> find_equivalent stat tab rest)"

definition add_tab ::
  "(string \<Rightarrow> nat option) \<Rightarrow> tab_manager \<Rightarrow> tab \<Rightarrow> bool \<Rightarrow> (exn + tab) \<times> tab_manager" where
  "add_tab stat self tab sel =
     (if widget tab \<in> set (map widget (tabs self)) then (Inl AssertionError, self)
      else
        (case find_equivalent stat tab (tabs self) of
           Inl e \<Rightarrow> (Inl e, self)
         | Inr (Some existing_tab) \<Rightarrow>
             (if sel then
                (case select_tab self existing_tab of
                   Inl e \<Rightarrow> (Inl e, self)
                 | Inr self' \<Rightarrow> (Inr existing_tab, self'))
              else (Inr existing_tab, self))
         | Inr None \<Rightarrow>
             (let self1 = add self tab
              in case (if sel then select_tab self1 tab else Inr self1) of
                   Inl e \<Rightarrow> (Inl e, self1)
                 | Inr self2 \<Rightarrow> (Inr tab, self2\<lparr>generated := generated self2 @ [tab]\<rparr>))))"

text \<open>\<open>select_another_tab\<close>.\<close>

definition select_another_tab :: "tab_manager \<Rightarrow> int \<Rightarrow> (exn + bool) \<times> tab_manager" where
  "select_another_tab self diff =
     (if diff \<noteq> 1 \<and> diff \<noteq> - 1 then (Inl AssertionError, self)
      else if tabs self = [] then (Inr False, self)
      else
        (case index self (select self) of
           Inl e \<Rightarrow> (Inl e, self)
         | Inr i \<Rightarrow>
             (case select_index self (int i + diff) of
                Inr self' \<Rightarrow> (Inr True, self')
              | Inl e \<Rightarrow> if e = TclError then (Inr False, self) else (Inl e, self))))"

text \<open>
  A manager as the notebook keeps it: no tab appears twice, and a tab is current
  exactly when there is one.
\<close>

definition wf_manager :: "tab_manager \<Rightarrow> bool" where
  "wf_manager self \<longleftrightarrow>
     distinct (map widget (tabs self))
     \<and> (case current self of None \<Rightarrow> tabs self = [] | Some i \<Rightarrow> i < length (tabs self))"

section \<open>Actions (actions.py)\<close>

text \<open>
  An action's \<open>callback\<close> is an opaque callable, named by a number; calling it is
  recorded in \<open>calls\<close>. A Tk variable is named by a number as well; the values of
  the boolean ones are in \<open>bool_vars\<close>. An attribute that \<open>_Action.__init__\<close> does
  not set for the kind is \<open>None\<close>.
\<close>

datatype callback_or_choices = Callback nat | Choices "string list"

record action =
  path :: string
  kind :: string
  binding :: "string option"
  enabled :: bool
  callback :: "callback_or_choices option"
  var :: "nat option"
  choices :: "callback_or_choices option"

text \<open>
  \<open>_Action.__init__\<close>. For the kind \<open>choice\<close> it calls \<open>var.trace\<close>, which
  raises \<open>AttributeError\<close> when \<open>var\<close> is \<open>None\<close>; the trace itself only warns
  and is not modelled.
\<close>

definition new_action ::
  "string \<Rightarrow> string \<Rightarrow> callback_or_choices \<Rightarrow> string option \<Rightarrow> nat option \<Rightarrow> exn + action" where
  "new_action p k coc b v =
     (let self = \<lparr>path = p, kind = k, binding = b, enabled = True,
                  callback = None, var = None, choices = None\<rparr>
      in if k = ''command'' then Inr (self\<lparr>callback := Some coc\<rparr>)
         else if k = ''choice'' then
           (if v = None then Inl AttributeError else Inr (self\<lparr>var := v, choices := Some coc\<rparr>))
         else if k = ''yesno'' then Inr (self\<lparr>var := v\<rparr>)
         else Inl AssertionError)"

text \<open>
  The classes that can occur in \<open>tabtypes\<close>, and \<open>isinstance\<close> on the value of
  \<open>select()\<close>: \<open>FileTab\<close> is a subclass of \<open>Tab\<close>, and \<open>None\<close> is the only
  instance of \<open>type(None)\<close>.
\<close>

datatype pycls = TabCls | FileTabCls | NoneType

fun isinstance :: "tab option \<Rightarrow> pycls \<Rightarrow> bool" where
  "isinstance None NoneType = True"
| "isinstance (Some (Tab w)) TabCls = True"
| "isinstance (Some (FileTab w ft)) TabCls = True"
| "isinstance (Some (FileTab w ft)) FileTabCls = True"
| "isinstance _ _ = False"

datatype rule = TabTypes "pycls list" | FiletypeNames "string list"

datatype event = NewAction string | ActionEnabled string | ActionDisabled string

text \<open>
  The module's state: the ordered dictionary \<open>_actions\<close>; the events generated on the
  main window; the \<open>enable_or_disable\<close> closures bound to
  \<open><<NotebookTabChanged>>\<close> and the \<open>on_new_tab\<close> closures bound to
  \<open><<NewTab>>\<close>, each given by the action's path and the rule it closes over; the
  \<open>bind_callback\<close> closures bound with \<open>bind_all\<close>, each given by the key
  binding, the path and the kind; and the key bindings removed from the \<open>Text\<close>
  class. A closure refers to its action by the path: an entry of \<open>_actions\<close> is never
  replaced or removed.
\<close>

record registry =
  actions :: "(string \<times> action) list"
  root_events :: "event list"
  tab_changed_bound :: "(string \<times> rule) list"
  new_tab_bound :: "(string \<times> rule) list"
  key_bound :: "(string \<times> string \<times> string) list"
  text_unbound :: "string list"
  calls :: "nat list"
  bool_vars :: "nat \<Rightarrow> bool"

definition initial_registry :: "(nat \<Rightarrow> bool) \<Rightarrow> registry" where
  "initial_registry vars =
     \<lparr>actions = [], root_events = [], tab_changed_bound = [], new_tab_bound = [],
      key_bound = [], text_unbound = [], calls = [], bool_vars = vars\<rparr>"

definition startswith :: "string \<Rightarrow> string \<Rightarrow> bool" where
  "startswith s pre = (take (length pre) s = pre)"

definition endswith :: "string \<Rightarrow> string \<Rightarrow> bool" where
  "endswith s suf = (length suf \<le> length s \<and> drop (length s - length suf) s = suf)"

definition rstrip :: "string \<Rightarrow> char \<Rightarrow> string" where
  "rstrip s c = rev (dropWhile (\<lambda>x. x = c) (rev s))"

text \<open>
  The setter of \<open>enabled\<close>, for the action stored at \<open>p\<close>. Its argument is a
  \<open>bool\<close> here, so the \<open>TypeError\<close> for other values cannot arise.
\<close>

definition enabled_setter :: "string \<Rightarrow> bool \<Rightarrow> registry \<Rightarrow> registry" where
  "enabled_setter p is_enabled reg =
     (case map_of (actions reg) p of
        None \<Rightarrow> reg
      | Some self \<Rightarrow>
          if enabled self \<noteq> is_enabled
          then reg\<lparr>actions := AList.update p (self\<lparr>enabled := is_enabled\<rparr>) (actions reg),
                   root_events := root_events reg @
                     [if is_enabled then ActionEnabled (path self) else ActionDisabled (path self)]\<rparr>
          else reg)"

text \<open>The two closures \<open>enable_or_disable\<close>, for the action at \<open>p\<close>.\<close>

definition enable_or_disable :: "tab_manager \<Rightarrow> string \<times> rule \<Rightarrow> registry \<Rightarrow> registry" where
  "enable_or_disable m h reg =
     (let tab = select m
      in case snd h of
           TabTypes tabtypes \<Rightarrow> enabled_setter (fst h) (\<exists>cls \<in> set tabtypes. isinstance tab cls) reg
         | FiletypeNames filetype_names \<Rightarrow>
             (case tab of
                Some (FileTab w ft) \<Rightarrow> enabled_setter (fst h) (filetype_name ft \<in> set filetype_names) reg
              | _ \<Rightarrow> enabled_setter (fst h) False reg))"

text \<open>
  The rule built from the keyword arguments: an entry \<open>None\<close> of \<open>tabtypes\<close> stands
  for \<open>type(None)\<close>; when \<open>filetype_names\<close> is given its closure is the one defined
  last.
\<close>

definition rule_of :: "string list option \<Rightarrow> pycls option list option \<Rightarrow> rule option" where
  "rule_of filetype_names tabtypes =
     (case filetype_names of
        Some names \<Rightarrow> Some (FiletypeNames names)
      | None \<Rightarrow>
          (case tabtypes of
             Some clss \<Rightarrow> Some (TabTypes (map (\<lambda>cls. case cls of None \<Rightarrow> NoneType | Some c \<Rightarrow> c) clss))
           | None \<Rightarrow> None))"

text \<open>
  \<open>_add_any_action\<close>, for the running application (\<open>get_main_window\<close> and
  \<open>get_tab_manager\<close> return). Its three blocks come first: the new action is stored
  and announced; the enablement closures are defined, run once and bound; the key
  binding is installed.
\<close>

definition store_action :: "string \<Rightarrow> action \<Rightarrow> registry \<Rightarrow> registry" where
  "store_action p a reg =
     reg\<lparr>actions := AList.update p a (actions reg),
         root_events := root_events reg @ [NewAction p]\<rparr>"

definition bind_enablement ::
  "tab_manager \<Rightarrow> string \<Rightarrow> string list option \<Rightarrow> pycls option list option \<Rightarrow> registry \<Rightarrow> registry" where
  "bind_enablement m p filetype_names tabtypes reg =
     (case rule_of filetype_names tabtypes of
        None \<Rightarrow> reg
      | Some r \<Rightarrow>
          let reg1 = (if filetype_names \<noteq> None
                      then reg\<lparr>new_tab_bound := new_tab_bound reg @ [(p, r)]\<rparr>
                      else reg);
              reg2 = enable_or_disable m (p, r) reg1
          in reg2\<lparr>tab_changed_bound := tab_changed_bound reg2 @ [(p, r)]\<rparr>)"

definition bind_key :: "string \<Rightarrow> string \<Rightarrow> string \<Rightarrow> registry \<Rightarrow> registry" where
  "bind_key bnd p k reg =
     reg\<lparr>key_bound := key_bound reg @ [(bnd, p, k)],
         text_unbound := text_unbound reg @ [bnd]\<rparr>"

text \<open>
  The result is the action returned or the exception raised, and the module's state
  afterwards: an exception does not undo what was done before it.
\<close>

definition add_any_action ::
  "tab_manager \<Rightarrow> registry \<Rightarrow> string \<Rightarrow> string \<Rightarrow> callback_or_choices \<Rightarrow> string option \<Rightarrow>
   nat option \<Rightarrow> string list option \<Rightarrow> pycls option list option \<Rightarrow> (exn + action) \<times> registry" where
  "add_any_action m reg p k coc b v filetype_names tabtypes =
     (if startswith p ''/'' \<or> endswith p ''/'' then (Inl ValueError, reg)
      else if filetype_names \<noteq> None \<and> tabtypes \<noteq> None then (Inl TypeError, reg)
      else if p \<in> set (map fst (actions reg)) then (Inl RuntimeError, reg)
      else
        (case new_action p k coc b v of
           Inl e \<Rightarrow> (Inl e, reg)
         | Inr a \<Rightarrow>
             let reg1 = store_action p a reg;
                 reg2 = bind_enablement m p filetype_names tabtypes reg1;
                 action = (case map_of (actions reg2) p of Some a' \<Rightarrow> a' | None \<Rightarrow> a)
             in (case b of
                   None \<Rightarrow> (Inr action, reg2)
                 | Some bnd \<Rightarrow>
                     (if k \<noteq> ''command'' \<and> k \<noteq> ''yesno'' then (Inl AssertionError, reg2)
                      else (Inr action, bind_key bnd p k reg2)))))"

definition add_command ::
  "tab_manager \<Rightarrow> registry \<Rightarrow> string \<Rightarrow> nat \<Rightarrow> string option \<Rightarrow> string list option \<Rightarrow>
   pycls option list option \<Rightarrow> (exn + action) \<times> registry" where
  "add_command m reg p cb keyboard_binding filetype_names tabtypes =
     add_any_action m reg p ''command'' (Callback cb) keyboard_binding None filetype_names tabtypes"

definition get_action :: "registry \<Rightarrow> string \<Rightarrow> exn + action" where
  "get_action reg action_path =
     (case map_of (actions reg) (rstrip action_path (CHR ''/'')) of
        None \<Rightarrow> Inl KeyError
      | Some a \<Rightarrow> Inr a)"

definition get_all_actions :: "registry \<Rightarrow> action list" where
  "get_all_actions reg = map snd (actions reg)"

text \<open>
  The closure \<open>bind_callback\<close> of the action at \<open>p\<close>, registered with kind \<open>k\<close>:
  what a press of the key binding runs. The result is what the closure returns to Tk,
  \<open>'break'\<close> or \<open>None\<close>, or the exception it raises.
\<close>

definition call_callback :: "action \<Rightarrow> registry \<Rightarrow> exn + registry" where
  "call_callback a reg =
     (case callback a of
        Some (Callback c) \<Rightarrow> Inr (reg\<lparr>calls := calls reg @ [c]\<rparr>)
      | Some (Choices cs) \<Rightarrow> Inl TypeError
      | None \<Rightarrow> Inl AttributeError)"

definition toggle_var :: "action \<Rightarrow> registry \<Rightarrow> exn + registry" where
  "toggle_var a reg =
     (case var a of
        Some x \<Rightarrow> Inr (reg\<lparr>bool_vars := (bool_vars reg)(x := \<not> bool_vars reg x)\<rparr>)
      | None \<Rightarrow> Inl AttributeError)"

definition bind_callback :: "string \<Rightarrow> string \<Rightarrow> registry \<Rightarrow> (exn + string option) \<times> registry" where
  "bind_callback p k reg =
     (case map_of (actions reg) p of
        None \<Rightarrow> (Inl KeyError, reg)
      | Some action \<Rightarrow>
          if enabled action then
            (case (if k = ''command'' then call_callback action reg else Inr reg) of
               Inl e \<Rightarrow> (Inl e, reg)
             | Inr reg1 \<Rightarrow>
                 (case (if k = ''yesno'' then toggle_var action reg1 else Inr reg1) of
                    Inl e \<Rightarrow> (Inl e, reg1)
                  | Inr reg2 \<Rightarrow> (Inr (Some ''break''), reg2)))
          else (Inr None, reg))"

text \<open>
  Tk delivers \<open><<NotebookTabChanged>>\<close> after the notebook's selection has changed:
  the closures bound to it run in the order they were bound, on the manager as it is
  then.
\<close>

definition notebook_tab_changed :: "tab_manager \<Rightarrow> registry \<Rightarrow> registry" where
  "notebook_tab_changed m reg = fold (enable_or_disable m) (tab_changed_bound reg) reg"

text \<open>
  The states of the module: it starts empty, and changes by registrations (also failed
  ones), by the delivery of \<open><<NotebookTabChanged>>\<close>, by presses of bound keys and
  by assignments to the \<open>enabled\<close> of a registered action.
\<close>

inductive reachable :: "registry \<Rightarrow> bool" where
  start: "reachable (initial_registry vars)"
| register: "reachable reg \<Longrightarrow> reachable (snd (add_any_action m reg p k coc b v filetype_names tabtypes))"
| tab_changed: "reachable reg \<Longrightarrow> reachable (notebook_tab_changed m reg)"
| key_press: "reachable reg \<Longrightarrow> (b, p, k) \<in> set (key_bound reg) \<Longrightarrow> reachable (snd (bind_callback p k reg))"
| set_enabled: "reachable reg \<Longrightarrow> reachable (enabled_setter p is_enabled reg)"

text \<open>
  \<open>_run.init\<close> creates the tab manager, empty, and then calls \<open>_setup_actions\<close>,
  which registers the application's commands in this order (the callbacks numbered as
  they come).
\<close>

definition empty_manager :: tab_manager where
  "empty_manager = \<lparr>tabs = [], current = None, generated = []\<rparr>"

definition setup_actions :: "(nat \<Rightarrow> bool) \<Rightarrow> registry" where
  "setup_actions vars =
     fold (\<lambda>(p, cb, keyboard_binding, tabtypes) reg.
             snd (add_command empty_manager reg p cb keyboard_binding None tabtypes))
       [(''File/New File'', 0, Some ''<Control-n>'', None),
        (''File/Open'', 1, Some ''<Control-o>'', None),
        (''File/Save'', 2, Some ''<Control-s>'', Some [Some FileTabCls]),
        (''File/Save As...'', 3, Some ''<Control-S>'', Some [Some FileTabCls]),
        (''File/Close'', 4, Some ''<Control-w>'', Some [Some TabCls]),
        (''File/Quit'', 5, Some ''<Control-q>'', None),
        (''Edit/Settings'', 6, None, None),
        (''Edit/Tokenize'', 7, None, None),
        (''Edit/Statistics'', 8, None, None),
        (''Help/163 mail'', 9, None, None)]
       (initial_registry vars)"

text \<open>The value an \<open>enable_or_disable\<close> closure assigns to \<open>enabled\<close>.\<close>

definition rule_holds :: "tab_manager \<Rightarrow> rule \<Rightarrow> bool" where
  "rule_holds m r =
     (case r of
        TabTypes tabtypes \<Rightarrow> (\<exists>cls \<in> set tabtypes. isinstance (select m) cls)
      | FiletypeNames filetype_names \<Rightarrow>
          (case select m of
             Some (FileTab w ft) \<Rightarrow> filetype_name ft \<in> set filetype_names
           | _ \<Rightarrow> False))"

text \<open>
  What holds of every state of the module: an action is stored under its own path, which
  has no trailing separator; the \<open>enable_or_disable\<close> closures belong to distinct
  registered actions; and a key binding belongs to a registered action of kind
  \<open>command\<close> or \<open>yesno\<close>.
\<close>

definition inv_paths :: "registry \<Rightarrow> bool" where
  "inv_paths reg \<longleftrightarrow>
     (\<forall>p a. map_of (actions reg) p = Some a \<longrightarrow> path a = p \<and> \<not> endswith p ''/'')"

definition inv_handlers :: "registry \<Rightarrow> bool" where
  "inv_handlers reg \<longleftrightarrow>
     distinct (map fst (tab_changed_bound reg))
     \<and> set (map fst (tab_changed_bound reg)) \<subseteq> set (map fst (actions reg))"

definition inv_keys :: "registry \<Rightarrow> bool" where
  "inv_keys reg \<longleftrightarrow>
     (\<forall>(bnd, p, k) \<in> set (key_bound reg).
        \<exists>a. map_of (actions reg) p = Some a \<and> kind a = k \<and> binding a = Some bnd
          \<and> (k = ''command'' \<or> k = ''yesno''))"

definition registry_inv :: "registry \<Rightarrow> bool" where
  "registry_inv reg \<longleftrightarrow> inv_paths reg \<and> inv_handlers reg \<and> inv_keys reg"


section \<open>Properties\<close>

subsection \<open>The token cache\<close>

lemma tokens_setter_nonempty: "tokens self \<noteq> [] \<Longrightarrow> tokens (tokens_setter self ws) \<noteq> []"
  by (simp add: tokens_setter_def)

lemma fold_tokens_setter_nonempty:
  "tokens self \<noteq> [] \<Longrightarrow> tokens (fold (\<lambda>ws t. tokens_setter t ws) wss self) \<noteq> []"
  by (induction wss arbitrary: self) (simp_all add: tokens_setter_nonempty)

text \<open>
  C8. Assigning an empty list to \<open>tokens\<close> changes nothing; assigning a non-empty list
  replaces the cache; hence after any sequence of assignments a populated cache is
  still populated.
\<close>

theorem tokens_setter_ignores_empty:
  "tokens_setter self [] = self
   \<and> (ws \<noteq> [] \<longrightarrow> tokens (tokens_setter self ws) = ws)
   \<and> (tokens self \<noteq> [] \<longrightarrow> tokens (fold (\<lambda>ws t. tokens_setter t ws) wss self) \<noteq> [])"
proof -
  have "tokens_setter self [] = self"
    by (simp add: tokens_setter_def)
  moreover have "ws \<noteq> [] \<longrightarrow> tokens (tokens_setter self ws) = ws"
    by (simp add: tokens_setter_def)
  ultimately show ?thesis
    using fold_tokens_setter_nonempty [of self wss] by blast
qed

theorem tokens_setter_ignores_empty_witness:
  "tokens_setter \<lparr>tab_path = None, save_hash = None, tokens = [''a''], filetype_name = ''Plain Text'',
       title = ''New File'', content = ''a''\<rparr> []
     = \<lparr>tab_path = None, save_hash = None, tokens = [''a''], filetype_name = ''Plain Text'',
       title = ''New File'', content = ''a''\<rparr>
   \<and> tokens (tokens_setter \<lparr>tab_path = None, save_hash = None, tokens = [''a''],
       filetype_name = ''Plain Text'', title = ''New File'', content = ''a''\<rparr> [''b'', ''c''])
     = [''b'', ''c'']
   \<and> tokens (fold (\<lambda>ws t. tokens_setter t ws) [[], [''b''], []]
       \<lparr>tab_path = None, save_hash = None, tokens = [''a''], filetype_name = ''Plain Text'',
        title = ''New File'', content = ''a''\<rparr>) \<noteq> []"
  using tokens_setter_ignores_empty
    [of "\<lparr>tab_path = None, save_hash = None, tokens = [''a''], filetype_name = ''Plain Text'',
          title = ''New File'', content = ''a''\<rparr>" "[''b'', ''c'']" "[[], [''b''], []]"]
  by (simp add: tokens_setter_def)

subsection \<open>The action registry\<close>

lemma enable_or_disable_eq:
  "enable_or_disable m h reg = enabled_setter (fst h) (rule_holds m (snd h)) reg"
  by (auto simp: enable_or_disable_def rule_holds_def split: rule.splits option.splits tab.splits)

lemma keys_enabled_setter [simp]:
  "map fst (actions (enabled_setter p b reg)) = map fst (actions reg)"
  by (auto simp: enabled_setter_def update_keys split: option.splits dest: map_of_SomeD
      intro: rev_image_eqI)

lemma map_of_enabled_setter:
  "map_of (actions (enabled_setter p b reg)) q =
     (if q = p then map_option (\<lambda>a. a\<lparr>enabled := b\<rparr>) (map_of (actions reg) p)
      else map_of (actions reg) q)"
  by (auto simp: enabled_setter_def update_conv' split: option.splits)

lemma other_enabled_setter [simp]:
  "tab_changed_bound (enabled_setter p b reg) = tab_changed_bound reg"
  "key_bound (enabled_setter p b reg) = key_bound reg"
  "calls (enabled_setter p b reg) = calls reg"
  "bool_vars (enabled_setter p b reg) = bool_vars reg"
  by (auto simp: enabled_setter_def split: option.splits)

lemma registry_inv_enabled_setter:
  assumes "registry_inv reg"
  shows "registry_inv (enabled_setter p b reg)"
proof -
  have "inv_paths (enabled_setter p b reg)"
    using assms unfolding registry_inv_def inv_paths_def
    by (auto simp: map_of_enabled_setter split: if_splits)
  moreover have "inv_handlers (enabled_setter p b reg)"
    using assms unfolding registry_inv_def inv_handlers_def by simp
  moreover have "inv_keys (enabled_setter p b reg)"
    using assms unfolding registry_inv_def inv_keys_def
    by (fastforce simp: map_of_enabled_setter)
  ultimately show ?thesis by (simp add: registry_inv_def)
qed

lemma registry_inv_enable_or_disable:
  "registry_inv reg \<Longrightarrow> registry_inv (enable_or_disable m h reg)"
  by (simp add: enable_or_disable_eq registry_inv_enabled_setter)

lemma registry_inv_fold:
  "registry_inv reg \<Longrightarrow> registry_inv (fold (enable_or_disable m) hs reg)"
  by (induction hs arbitrary: reg) (simp_all add: registry_inv_enable_or_disable)

lemma tab_changed_bound_fold [simp]:
  "tab_changed_bound (fold (enable_or_disable m) hs reg) = tab_changed_bound reg"
  by (induction hs arbitrary: reg) (simp_all add: enable_or_disable_eq)

lemma registry_inv_tab_changed:
  "registry_inv reg \<Longrightarrow> registry_inv (notebook_tab_changed m reg)"
  by (simp add: notebook_tab_changed_def registry_inv_fold)

lemma tab_changed_bound_tab_changed [simp]:
  "tab_changed_bound (notebook_tab_changed m reg) = tab_changed_bound reg"
  by (simp add: notebook_tab_changed_def)

lemma actions_bind_callback [simp]:
  "actions (snd (bind_callback p k reg)) = actions reg"
  "tab_changed_bound (snd (bind_callback p k reg)) = tab_changed_bound reg"
  "key_bound (snd (bind_callback p k reg)) = key_bound reg"
  by (auto simp: bind_callback_def call_callback_def toggle_var_def
      split: option.splits sum.splits callback_or_choices.splits)

lemma registry_inv_bind_callback:
  "registry_inv reg \<Longrightarrow> registry_inv (snd (bind_callback p k reg))"
  by (simp add: registry_inv_def inv_paths_def inv_handlers_def inv_keys_def)

lemma registry_inv_initial: "registry_inv (initial_registry vars)"
  by (simp add: registry_inv_def inv_paths_def inv_handlers_def inv_keys_def initial_registry_def)

lemma new_action_fields:
  "new_action p k coc b v = Inr a \<Longrightarrow> path a = p \<and> kind a = k \<and> binding a = b"
  by (auto simp: new_action_def Let_def split: if_splits)

lemma registry_inv_irrelevant [simp]:
  "registry_inv (reg\<lparr>new_tab_bound := x\<rparr>) = registry_inv reg"
  "registry_inv (reg\<lparr>text_unbound := z\<rparr>) = registry_inv reg"
  "registry_inv (reg\<lparr>root_events := w\<rparr>) = registry_inv reg"
  by (simp_all add: registry_inv_def inv_paths_def inv_handlers_def inv_keys_def)

lemma registry_inv_store_action:
  assumes "registry_inv reg" "\<not> endswith p ''/''" "path a = p"
    "p \<notin> set (map fst (actions reg))"
  shows "registry_inv (store_action p a reg)"
proof -
  have fresh: "map_of (actions reg) q = Some x \<Longrightarrow> q \<noteq> p" for q x
    using assms(4) by (auto dest: map_of_SomeD intro: rev_image_eqI)
  have "inv_paths (store_action p a reg)"
    using assms(1-3) unfolding registry_inv_def inv_paths_def store_action_def
    by (simp add: update_conv')
  moreover have "inv_handlers (store_action p a reg)"
    using assms(1) unfolding registry_inv_def inv_handlers_def store_action_def
    by (auto simp: dom_update)
  moreover have "inv_keys (store_action p a reg)"
    using assms(1) fresh unfolding registry_inv_def inv_keys_def store_action_def
    by (fastforce simp: update_conv')
  ultimately show ?thesis by (simp add: registry_inv_def)
qed

lemma registry_inv_bind_handler:
  assumes "registry_inv reg" "p \<in> set (map fst (actions reg))"
    "p \<notin> set (map fst (tab_changed_bound reg))"
  shows "registry_inv (reg\<lparr>tab_changed_bound := tab_changed_bound reg @ [(p, r)]\<rparr>)"
  using assms unfolding registry_inv_def inv_paths_def inv_handlers_def inv_keys_def by simp

lemma registry_inv_bind_key:
  assumes "registry_inv reg" "map_of (actions reg) p = Some a" "kind a = k"
    "binding a = Some bnd" "k = ''command'' \<or> k = ''yesno''"
  shows "registry_inv (bind_key bnd p k reg)"
  using assms unfolding registry_inv_def inv_paths_def inv_handlers_def inv_keys_def bind_key_def
  by simp

lemma keys_enable_or_disable [simp]:
  "map fst (actions (enable_or_disable m h reg)) = map fst (actions reg)"
  "tab_changed_bound (enable_or_disable m h reg) = tab_changed_bound reg"
  by (simp_all add: enable_or_disable_eq)

lemma registry_inv_bind_enablement:
  assumes "registry_inv reg" "p \<in> set (map fst (actions reg))"
    "p \<notin> set (map fst (tab_changed_bound reg))"
  shows "registry_inv (bind_enablement m p filetype_names tabtypes reg)"
proof (cases "rule_of filetype_names tabtypes")
  case None
  then show ?thesis using assms by (simp add: bind_enablement_def)
next
  case (Some r)
  show ?thesis
    unfolding bind_enablement_def Some option.case Let_def
    by (rule registry_inv_bind_handler)
       (use assms in \<open>simp_all add: registry_inv_enable_or_disable\<close>)
qed

lemma map_of_bind_enablement:
  "map_of (actions (bind_enablement m p filetype_names tabtypes reg)) q =
     (case rule_of filetype_names tabtypes of
        None \<Rightarrow> map_of (actions reg) q
      | Some r \<Rightarrow>
          if q = p then map_option (\<lambda>a. a\<lparr>enabled := rule_holds m r\<rparr>) (map_of (actions reg) p)
          else map_of (actions reg) q)"
  by (simp add: bind_enablement_def Let_def enable_or_disable_eq map_of_enabled_setter
      split: option.splits)

lemma tab_changed_bound_bind_enablement:
  "tab_changed_bound (bind_enablement m p filetype_names tabtypes reg) =
     (case rule_of filetype_names tabtypes of
        None \<Rightarrow> tab_changed_bound reg
      | Some r \<Rightarrow> tab_changed_bound reg @ [(p, r)])"
  by (simp add: bind_enablement_def Let_def split: option.splits)

lemma map_of_store_action:
  "map_of (actions (store_action p a reg)) = (map_of (actions reg))(p \<mapsto> a)"
  by (simp add: store_action_def update_conv')

text \<open>What a registration that passes the three checks does.\<close>

lemma add_any_action_accepted:
  fixes m reg p a filetype_names tabtypes
  defines "reg2 \<equiv> bind_enablement m p filetype_names tabtypes (store_action p a reg)"
  defines "a' \<equiv> (case rule_of filetype_names tabtypes of None \<Rightarrow> a
                  | Some r \<Rightarrow> a\<lparr>enabled := rule_holds m r\<rparr>)"
  assumes "\<not> startswith p ''/''" "\<not> endswith p ''/''" "filetype_names = None \<or> tabtypes = None"
    "p \<notin> set (map fst (actions reg))" "new_action p k coc b v = Inr a"
  shows "map_of (actions reg2) p = Some a'"
    and "add_any_action m reg p k coc b v filetype_names tabtypes =
      (case b of
         None \<Rightarrow> (Inr a', reg2)
       | Some bnd \<Rightarrow> if k \<noteq> ''command'' \<and> k \<noteq> ''yesno'' then (Inl AssertionError, reg2)
                     else (Inr a', bind_key bnd p k reg2))"
proof -
  show *: "map_of (actions reg2) p = Some a'"
    by (simp add: reg2_def a'_def map_of_bind_enablement map_of_store_action split: option.splits)
  have "\<not> (filetype_names \<noteq> None \<and> tabtypes \<noteq> None)"
    using assms(5) by auto
  then show "add_any_action m reg p k coc b v filetype_names tabtypes =
      (case b of
         None \<Rightarrow> (Inr a', reg2)
       | Some bnd \<Rightarrow> if k \<noteq> ''command'' \<and> k \<noteq> ''yesno'' then (Inl AssertionError, reg2)
                     else (Inr a', bind_key bnd p k reg2))"
    unfolding add_any_action_def using assms(3,4,6,7) * [unfolded reg2_def]
    by (simp add: Let_def reg2_def split: option.splits)
qed

lemma registry_inv_add_any_action:
  assumes "registry_inv reg"
  shows "registry_inv (snd (add_any_action m reg p k coc b v filetype_names tabtypes))"
proof (cases "startswith p ''/'' \<or> endswith p ''/'' \<or> (filetype_names \<noteq> None \<and> tabtypes \<noteq> None)
    \<or> p \<in> set (map fst (actions reg))")
  case True
  then show ?thesis using assms by (auto simp: add_any_action_def)
next
  case False
  show ?thesis
  proof (cases "new_action p k coc b v")
    case (Inl e)
    then show ?thesis using False assms by (simp add: add_any_action_def)
  next
    case (Inr a)
    define reg2 where "reg2 = bind_enablement m p filetype_names tabtypes (store_action p a reg)"
    define a' where "a' = (case rule_of filetype_names tabtypes of None \<Rightarrow> a
                  | Some r \<Rightarrow> a\<lparr>enabled := rule_holds m r\<rparr>)"
    have inv1: "registry_inv (store_action p a reg)"
      using registry_inv_store_action [OF assms, of p a] False new_action_fields [OF Inr]
      by simp
    have in1: "p \<in> set (map fst (actions (store_action p a reg)))"
      by (simp add: store_action_def update_keys)
    have notin1: "p \<notin> set (map fst (tab_changed_bound (store_action p a reg)))"
      using assms False by (auto simp: store_action_def registry_inv_def inv_handlers_def)
    have inv2: "registry_inv reg2"
      unfolding reg2_def by (rule registry_inv_bind_enablement [OF inv1 in1 notin1])
    have a': "map_of (actions reg2) p = Some a'"
      and res: "add_any_action m reg p k coc b v filetype_names tabtypes =
      (case b of
         None \<Rightarrow> (Inr a', reg2)
       | Some bnd \<Rightarrow> if k \<noteq> ''command'' \<and> k \<noteq> ''yesno'' then (Inl AssertionError, reg2)
                     else (Inr a', bind_key bnd p k reg2))"
      unfolding reg2_def a'_def
      using add_any_action_accepted [of p filetype_names tabtypes reg k coc b v a m] False Inr
      by simp_all
    have fields: "kind a' = k" "binding a' = b"
      using new_action_fields [OF Inr] by (auto simp: a'_def split: option.splits)
    show ?thesis
    proof (cases b)
      case None
      then show ?thesis using res inv2 by simp
    next
      case (Some bnd)
      show ?thesis
      proof (cases "k \<noteq> ''command'' \<and> k \<noteq> ''yesno''")
        case True
        then show ?thesis using res inv2 Some by simp
      next
        case False
        then have "registry_inv (bind_key bnd p k reg2)"
          using registry_inv_bind_key [OF inv2 a', of k bnd] fields Some by auto
        then show ?thesis using res Some False by simp
      qed
    qed
  qed
qed

lemma reachable_inv: "reachable reg \<Longrightarrow> registry_inv reg"
  by (induction rule: reachable.induct)
     (simp_all add: registry_inv_initial registry_inv_add_any_action registry_inv_tab_changed
        registry_inv_bind_callback registry_inv_enabled_setter)

lemma reachable_fold_add_command:
  "reachable reg \<Longrightarrow>
   reachable (fold (\<lambda>(p, cb, keyboard_binding, tabtypes) reg.
             snd (add_command m reg p cb keyboard_binding None tabtypes)) xs reg)"
  by (induction xs arbitrary: reg)
     (auto simp: add_command_def intro: reachable.register)

lemma reachable_setup_actions: "reachable (setup_actions vars)"
  unfolding setup_actions_def
  by (rule reachable_fold_add_command) (rule reachable.start)

lemma registered_lookup:
  assumes "reachable reg" "p \<in> set (map fst (actions reg))"
  shows "\<not> endswith p ''/''" "rstrip p (CHR ''/'') = p"
    "\<exists>a. get_action reg p = Inr a \<and> path a = p"
proof -
  from assms(2) obtain a where a: "map_of (actions reg) p = Some a"
    by (metis map_of_eq_None_iff not_Some_eq set_map)
  with reachable_inv [OF assms(1)] have pa: "\<not> endswith p ''/''" "path a = p"
    by (auto simp: registry_inv_def inv_paths_def)
  show "\<not> endswith p ''/''" by (rule pa(1))
  have "p = [] \<or> last p \<noteq> CHR ''/''"
    using pa(1) by (cases p rule: rev_cases) (auto simp: endswith_def)
  then show r: "rstrip p (CHR ''/'') = p"
    by (cases p rule: rev_cases) (auto simp: rstrip_def)
  show "\<exists>a. get_action reg p = Inr a \<and> path a = p"
    using a pa(2) r by (simp add: get_action_def)
qed

lemma keys_bind_enablement [simp]:
  "map fst (actions (bind_enablement m p filetype_names tabtypes reg)) = map fst (actions reg)"
  by (simp add: bind_enablement_def Let_def split: option.splits)

lemma keys_setup_actions:
  "map fst (actions (setup_actions (\<lambda>x. False))) =
     [''File/New File'', ''File/Open'', ''File/Save'', ''File/Save As...'', ''File/Close'',
      ''File/Quit'', ''Edit/Settings'', ''Edit/Tokenize'', ''Edit/Statistics'', ''Help/163 mail'']"
  by code_simp

text \<open>
  C5. A registration is refused, and changes nothing, when the path starts or ends with
  the separator (\<open>ValueError\<close>), when both \<open>filetype_names\<close> and \<open>tabtypes\<close> are
  given (\<open>TypeError\<close>), or when the path is registered already (\<open>RuntimeError\<close>).
  In every state of the module, looking up two distinct registered paths returns two
  distinct actions.
\<close>

theorem add_any_action_rejects:
  "(startswith p ''/'' \<or> endswith p ''/'' \<or> (filetype_names \<noteq> None \<and> tabtypes \<noteq> None)
      \<or> p \<in> set (map fst (actions reg))
    \<longrightarrow> add_any_action m reg p k coc b v filetype_names tabtypes =
         (Inl (if startswith p ''/'' \<or> endswith p ''/'' then ValueError
               else if filetype_names \<noteq> None \<and> tabtypes \<noteq> None then TypeError
               else RuntimeError), reg))
   \<and> (reachable reg \<and> p1 \<in> set (map fst (actions reg)) \<and> p2 \<in> set (map fst (actions reg))
        \<and> p1 \<noteq> p2
      \<longrightarrow> (\<exists>a1 a2. get_action reg p1 = Inr a1 \<and> get_action reg p2 = Inr a2 \<and> a1 \<noteq> a2))"
proof (intro conjI impI)
  assume "startswith p ''/'' \<or> endswith p ''/'' \<or> (filetype_names \<noteq> None \<and> tabtypes \<noteq> None)
      \<or> p \<in> set (map fst (actions reg))"
  then show "add_any_action m reg p k coc b v filetype_names tabtypes =
         (Inl (if startswith p ''/'' \<or> endswith p ''/'' then ValueError
               else if filetype_names \<noteq> None \<and> tabtypes \<noteq> None then TypeError
               else RuntimeError), reg)"
    by (auto simp: add_any_action_def)
next
  assume h: "reachable reg \<and> p1 \<in> set (map fst (actions reg)) \<and> p2 \<in> set (map fst (actions reg))
        \<and> p1 \<noteq> p2"
  then obtain a1 a2 where "get_action reg p1 = Inr a1" "path a1 = p1"
    "get_action reg p2 = Inr a2" "path a2 = p2"
    using registered_lookup(3) by blast
  with h show "\<exists>a1 a2. get_action reg p1 = Inr a1 \<and> get_action reg p2 = Inr a2 \<and> a1 \<noteq> a2"
    by auto
qed

theorem add_any_action_rejects_witness:
  "fst (add_any_action empty_manager (setup_actions (\<lambda>x. False)) ''File/Save'' ''command''
      (Callback 2) (Some ''<Control-s>'') None None (Some [Some FileTabCls])) = Inl RuntimeError
   \<and> (\<exists>a1 a2. get_action (setup_actions (\<lambda>x. False)) ''File/Save'' = Inr a1
        \<and> get_action (setup_actions (\<lambda>x. False)) ''File/Open'' = Inr a2 \<and> a1 \<noteq> a2)"
  using add_any_action_rejects [of "''File/Save''" None "Some [Some FileTabCls]"
      "setup_actions (\<lambda>x. False)" empty_manager "''command''" "Callback 2" "Some ''<Control-s>''"
      None "''File/Save''" "''File/Open''"]
    reachable_setup_actions [of "\<lambda>x. False"]
  by (simp add: keys_setup_actions startswith_def endswith_def)

lemma rstrip_append_separators:
  "set s \<subseteq> {c} \<Longrightarrow> rstrip (p @ s) c = rstrip p c"
  by (auto simp: rstrip_def intro!: dropWhile_append2)

text \<open>
  C10. For a registered path \<open>p\<close> and a string \<open>s\<close> of separators only, looking up
  \<open>p @ s\<close> returns the action that looking up \<open>p\<close> returns; and no registered path
  ends with a separator.
\<close>

theorem get_action_strips_trailing_separators:
  assumes "reachable reg" "p \<in> set (map fst (actions reg))" "set s \<subseteq> {CHR ''/''}"
  shows "(\<exists>a. get_action reg p = Inr a \<and> get_action reg (p @ s) = Inr a) \<and> \<not> endswith p ''/''"
proof -
  have "get_action reg (p @ s) = get_action reg p"
    using rstrip_append_separators [OF assms(3), of p]
    by (simp add: get_action_def)
  then show ?thesis
    using registered_lookup(1,3) [OF assms(1,2)] by auto
qed

theorem get_action_strips_trailing_separators_witness:
  "(\<exists>a. get_action (setup_actions (\<lambda>x. False)) ''File/Save'' = Inr a
       \<and> get_action (setup_actions (\<lambda>x. False)) ''File/Save//'' = Inr a)
   \<and> \<not> endswith ''File/Save'' ''/''"
  using get_action_strips_trailing_separators [OF reachable_setup_actions,
      of "''File/Save''" "\<lambda>x. False" "''//''"]
  by (simp add: keys_setup_actions)

lemma add_any_action_rejected:
  assumes "startswith p ''/'' \<or> endswith p ''/'' \<or> (filetype_names \<noteq> None \<and> tabtypes \<noteq> None)
      \<or> p \<in> set (map fst (actions reg))"
  shows "\<exists>e. add_any_action m reg p k coc b v filetype_names tabtypes = (Inl e, reg)"
  using assms unfolding add_any_action_def by auto

lemma isinstance_FileTabCls: "isinstance t FileTabCls = is_FileTab t"
  by (cases "(t, FileTabCls)" rule: isinstance.cases) auto

lemma map_of_fold_enable_or_disable:
  "distinct (map fst hs) \<Longrightarrow>
   map_of (actions (fold (enable_or_disable m) hs reg)) q =
     (case map_of hs q of
        None \<Rightarrow> map_of (actions reg) q
      | Some r \<Rightarrow> map_option (\<lambda>a. a\<lparr>enabled := rule_holds m r\<rparr>) (map_of (actions reg) q))"
proof (induction hs arbitrary: reg)
  case Nil
  then show ?case by simp
next
  case (Cons h hs)
  have "map_of hs (fst h) = None"
    using Cons.prems by (simp add: map_of_eq_None_iff)
  then show ?case
    using Cons by (cases h) (auto simp: enable_or_disable_eq map_of_enabled_setter split: option.splits)
qed

lemma enabled_after_tab_changed:
  assumes "reachable reg" "(p, r) \<in> set (tab_changed_bound reg)"
  shows "\<exists>a. map_of (actions (notebook_tab_changed m reg)) p = Some a
           \<and> enabled a = rule_holds m r"
proof -
  have inv: "inv_handlers reg"
    using reachable_inv [OF assms(1)] by (simp add: registry_inv_def)
  then have d: "distinct (map fst (tab_changed_bound reg))"
    by (simp add: inv_handlers_def)
  then have h: "map_of (tab_changed_bound reg) p = Some r"
    using assms(2) by simp
  have "p \<in> set (map fst (actions reg))"
    using inv assms(2) by (force simp: inv_handlers_def)
  then obtain a where "map_of (actions reg) p = Some a"
    by (metis map_of_eq_None_iff not_Some_eq set_map)
  then show ?thesis
    by (simp add: notebook_tab_changed_def map_of_fold_enable_or_disable [OF d] h)
qed

lemma reachable_fold_tab_changed:
  "reachable reg \<Longrightarrow> reachable (fold notebook_tab_changed ms reg)"
  by (induction ms arbitrary: reg) (simp_all add: reachable.tab_changed)

lemma tab_changed_bound_fold_tab_changed [simp]:
  "tab_changed_bound (fold notebook_tab_changed ms reg) = tab_changed_bound reg"
  by (induction ms arbitrary: reg) simp_all

text \<open>
  C4. An action registered with \<open>tabtypes=[FileTab]\<close> gets its
  \<open>enable_or_disable\<close> closure bound to \<open><<NotebookTabChanged>>\<close> and its flag set
  at once; and after any non-empty sequence of selection changes, each delivered as a
  \<open><<NotebookTabChanged>>\<close> on the manager \<open>m\<close> as it is then, the flag is true
  exactly when the tab selected after the last change is a \<open>FileTab\<close> (it is false
  when no tab is selected). The closure runs on the delivery of the event; no call
  sets the flag.
\<close>

theorem enabled_iff_FileTab_selected:
  "(add_any_action m reg p k coc b v None (Some [Some FileTabCls]) = (Inr a, reg')
      \<longrightarrow> (p, TabTypes [FileTabCls]) \<in> set (tab_changed_bound reg')
          \<and> (enabled a \<longleftrightarrow> is_FileTab (select m)))
   \<and> (reachable reg \<and> (p, TabTypes [FileTabCls]) \<in> set (tab_changed_bound reg) \<and> ms \<noteq> []
      \<longrightarrow> (\<exists>a. map_of (actions (fold notebook_tab_changed ms reg)) p = Some a
             \<and> (enabled a \<longleftrightarrow> is_FileTab (select (last ms)))))"
proof (rule conjI; rule impI)
  assume ok: "add_any_action m reg p k coc b v None (Some [Some FileTabCls]) = (Inr a, reg')"
  show "(p, TabTypes [FileTabCls]) \<in> set (tab_changed_bound reg')
          \<and> (enabled a \<longleftrightarrow> is_FileTab (select m))"
  proof (cases "startswith p ''/'' \<or> endswith p ''/'' \<or> p \<in> set (map fst (actions reg))")
    case True
    then have "\<exists>e. add_any_action m reg p k coc b v None (Some [Some FileTabCls]) = (Inl e, reg)"
      by (intro add_any_action_rejected) blast
    then show ?thesis using ok by auto
  next
    case False
    show ?thesis
    proof (cases "new_action p k coc b v")
      case (Inl e)
      then show ?thesis using ok False by (simp add: add_any_action_def)
    next
      case (Inr a0)
      have r: "rule_of None (Some [Some FileTabCls]) = Some (TabTypes [FileTabCls])"
        by (simp add: rule_of_def)
      have res: "add_any_action m reg p k coc b v None (Some [Some FileTabCls]) =
        (case b of
           None \<Rightarrow> (Inr (a0\<lparr>enabled := rule_holds m (TabTypes [FileTabCls])\<rparr>),
                     bind_enablement m p None (Some [Some FileTabCls]) (store_action p a0 reg))
         | Some bnd \<Rightarrow>
             if k \<noteq> ''command'' \<and> k \<noteq> ''yesno''
             then (Inl AssertionError,
                   bind_enablement m p None (Some [Some FileTabCls]) (store_action p a0 reg))
             else (Inr (a0\<lparr>enabled := rule_holds m (TabTypes [FileTabCls])\<rparr>),
                   bind_key bnd p k
                     (bind_enablement m p None (Some [Some FileTabCls]) (store_action p a0 reg))))"
        using add_any_action_accepted(2) [of p None "Some [Some FileTabCls]" reg k coc b v a0 m,
            unfolded r option.case] False Inr by simp
      have "a = a0\<lparr>enabled := rule_holds m (TabTypes [FileTabCls])\<rparr>"
        and "tab_changed_bound reg' =
          tab_changed_bound (bind_enablement m p None (Some [Some FileTabCls]) (store_action p a0 reg))"
        using ok res by (auto simp: bind_key_def split: option.splits if_splits)
      then show ?thesis
        by (simp add: tab_changed_bound_bind_enablement r rule_holds_def isinstance_FileTabCls)
    qed
  qed
next
  assume h: "reachable reg \<and> (p, TabTypes [FileTabCls]) \<in> set (tab_changed_bound reg) \<and> ms \<noteq> []"
  then obtain ms' m' where ms: "ms = ms' @ [m']"
    by (cases ms rule: rev_cases) auto
  have "reachable (fold notebook_tab_changed ms' reg)"
    using h by (simp add: reachable_fold_tab_changed)
  moreover have "(p, TabTypes [FileTabCls]) \<in> set (tab_changed_bound (fold notebook_tab_changed ms' reg))"
    using h by simp
  ultimately have "\<exists>a. map_of (actions (notebook_tab_changed m' (fold notebook_tab_changed ms' reg))) p = Some a
           \<and> enabled a = rule_holds m' (TabTypes [FileTabCls])"
    by (rule enabled_after_tab_changed)
  then show "\<exists>a. map_of (actions (fold notebook_tab_changed ms reg)) p = Some a
             \<and> (enabled a \<longleftrightarrow> is_FileTab (select (last ms)))"
    by (simp add: ms rule_holds_def isinstance_FileTabCls)
qed

lemma setup_actions_tab_changed_bound:
  "tab_changed_bound (setup_actions (\<lambda>x. False)) =
     [(''File/Save'', TabTypes [FileTabCls]), (''File/Save As...'', TabTypes [FileTabCls]),
      (''File/Close'', TabTypes [TabCls])]"
  by code_simp

lemma setup_actions_key_bound:
  "key_bound (setup_actions (\<lambda>x. False)) =
     [(''<Control-n>'', ''File/New File'', ''command''),
      (''<Control-o>'', ''File/Open'', ''command''),
      (''<Control-s>'', ''File/Save'', ''command''),
      (''<Control-S>'', ''File/Save As...'', ''command''),
      (''<Control-w>'', ''File/Close'', ''command''),
      (''<Control-q>'', ''File/Quit'', ''command'')]"
  by code_simp



theorem enabled_iff_FileTab_selected_witness:
  "(\<exists>a reg'. add_any_action
        \<lparr>tabs = [FileTab 1 \<lparr>tab_path = None, save_hash = None, tokens = [],
            filetype_name = ''Plain Text'', title = ''New File'', content = []\<rparr>],
         current = Some 0, generated = []\<rparr>
        (initial_registry (\<lambda>x. False)) ''File/Save'' ''command'' (Callback 2)
        (Some ''<Control-s>'') None None (Some [Some FileTabCls]) = (Inr a, reg')
      \<and> (''File/Save'', TabTypes [FileTabCls]) \<in> set (tab_changed_bound reg') \<and> enabled a)
   \<and> (\<exists>a. map_of (actions (fold notebook_tab_changed
          [\<lparr>tabs = [Tab 2, FileTab 1 \<lparr>tab_path = None, save_hash = None, tokens = [],
              filetype_name = ''Plain Text'', title = ''New File'', content = []\<rparr>],
            current = Some 0, generated = []\<rparr>,
           \<lparr>tabs = [Tab 2, FileTab 1 \<lparr>tab_path = None, save_hash = None, tokens = [],
              filetype_name = ''Plain Text'', title = ''New File'', content = []\<rparr>],
            current = Some 1, generated = []\<rparr>]
          (setup_actions (\<lambda>x. False)))) ''File/Save'' = Some a \<and> enabled a)
   \<and> (\<exists>a. map_of (actions (fold notebook_tab_changed
          [\<lparr>tabs = [FileTab 1 \<lparr>tab_path = None, save_hash = None, tokens = [],
              filetype_name = ''Plain Text'', title = ''New File'', content = []\<rparr>],
            current = Some 0, generated = []\<rparr>, empty_manager]
          (setup_actions (\<lambda>x. False)))) ''File/Save'' = Some a \<and> \<not> enabled a)"
proof -
  let ?ft = "FileTab 1 \<lparr>tab_path = None, save_hash = None, tokens = [],
            filetype_name = ''Plain Text'', title = ''New File'', content = []\<rparr>"
  let ?m = "\<lparr>tabs = [?ft], current = Some 0, generated = []\<rparr>"
  obtain r reg' where res: "add_any_action ?m (initial_registry (\<lambda>x. False)) ''File/Save''
      ''command'' (Callback 2) (Some ''<Control-s>'') None None (Some [Some FileTabCls]) = (r, reg')"
    by (rule prod.exhaust)
  have "\<exists>a. r = Inr a"
    using arg_cong [OF res, of fst]
    by (auto simp: add_any_action_def new_action_def startswith_def endswith_def
        initial_registry_def Let_def)
  then obtain a where a: "r = Inr a" ..
  have h: "reachable (setup_actions (\<lambda>x. False))
      \<and> (''File/Save'', TabTypes [FileTabCls]) \<in> set (tab_changed_bound (setup_actions (\<lambda>x. False)))"
    by (simp add: reachable_setup_actions setup_actions_tab_changed_bound)
  show ?thesis
    using enabled_iff_FileTab_selected [of ?m "initial_registry (\<lambda>x. False)" "''File/Save''"
        "''command''" "Callback 2" "Some ''<Control-s>''" None a reg']
      enabled_iff_FileTab_selected [of _ "setup_actions (\<lambda>x. False)" "''File/Save''" _ _ _ _ _ _
        "[\<lparr>tabs = [Tab 2, ?ft], current = Some 0, generated = []\<rparr>,
          \<lparr>tabs = [Tab 2, ?ft], current = Some 1, generated = []\<rparr>]"]
      enabled_iff_FileTab_selected [of _ "setup_actions (\<lambda>x. False)" "''File/Save''" _ _ _ _ _ _
        "[?m, empty_manager]"]
      res a h
    by (simp add: select_def empty_manager_def)
qed

lemma text_unbound_enabled_setter [simp]:
  "text_unbound (enabled_setter p b reg) = text_unbound reg"
  by (auto simp: enabled_setter_def split: option.splits)



lemma text_unbound_bind_callback [simp]:
  "text_unbound (snd (bind_callback p k reg)) = text_unbound reg"
  by (auto simp: bind_callback_def call_callback_def toggle_var_def
      split: option.splits sum.splits callback_or_choices.splits)


lemma bound_bind_enablement [simp]:
  "key_bound (bind_enablement m p filetype_names tabtypes reg) = key_bound reg"
  "text_unbound (bind_enablement m p filetype_names tabtypes reg) = text_unbound reg"
  by (simp_all add: bind_enablement_def Let_def enable_or_disable_eq split: option.splits)

lemma bound_store_action [simp]:
  "key_bound (store_action p a reg) = key_bound reg"
  "text_unbound (store_action p a reg) = text_unbound reg"
  by (simp_all add: store_action_def)



text \<open>
  A registration with a key binding that returns is one of kind \<open>command\<close> or
  \<open>yesno\<close>, and it returns the action it has stored.
\<close>

lemma add_any_action_bound:
  assumes "add_any_action m reg p k coc (Some bnd) v filetype_names tabtypes = (Inr a, reg')"
  shows "map_of (actions reg') p = Some a \<and> binding a = Some bnd \<and> kind a = k
    \<and> (k = ''command'' \<or> k = ''yesno'')"
proof (cases "startswith p ''/'' \<or> endswith p ''/'' \<or> (filetype_names \<noteq> None \<and> tabtypes \<noteq> None)
    \<or> p \<in> set (map fst (actions reg))")
  case True
  then have "\<exists>e. add_any_action m reg p k coc (Some bnd) v filetype_names tabtypes = (Inl e, reg)"
    by (rule add_any_action_rejected)
  then show ?thesis using assms by auto
next
  case False
  show ?thesis
  proof (cases "new_action p k coc (Some bnd) v")
    case (Inl e)
    then have "add_any_action m reg p k coc (Some bnd) v filetype_names tabtypes = (Inl e, reg)"
      using False by (auto simp: add_any_action_def)
    then show ?thesis using assms by simp
  next
    case (Inr a0)
    define reg2 where "reg2 = bind_enablement m p filetype_names tabtypes (store_action p a0 reg)"
    define a' where "a' = (case rule_of filetype_names tabtypes of None \<Rightarrow> a0
                  | Some r \<Rightarrow> a0\<lparr>enabled := rule_holds m r\<rparr>)"
    have a': "map_of (actions reg2) p = Some a'"
      and res: "add_any_action m reg p k coc (Some bnd) v filetype_names tabtypes =
        (if k \<noteq> ''command'' \<and> k \<noteq> ''yesno'' then (Inl AssertionError, reg2)
         else (Inr a', bind_key bnd p k reg2))"
      unfolding reg2_def a'_def
      using add_any_action_accepted [of p filetype_names tabtypes reg k coc "Some bnd" v a0 m]
        False Inr
      by simp_all
    have fields: "kind a' = k" "binding a' = Some bnd"
      using new_action_fields [OF Inr] by (auto simp: a'_def split: option.splits)
    have k: "k = ''command'' \<or> k = ''yesno''" and a: "a = a'" and r: "reg' = bind_key bnd p k reg2"
      using assms res by (auto split: if_splits)
    show ?thesis
      using a' fields k by (simp add: a r bind_key_def)
  qed
qed






subsection \<open>The tab manager\<close>

lemma index_nth:
  assumes "distinct (map widget ts)" "i < length ts"
  shows "length (takeWhile (\<lambda>x. widget x \<noteq> widget (ts ! i)) ts) = i"
proof -
  have "takeWhile (\<lambda>x. widget x \<noteq> widget (ts ! i)) ts = take i ts"
  proof (rule takeWhile_eq_take_P_nth)
    fix j assume "j < i" "j < length ts"
    then show "widget (ts ! j) \<noteq> widget (ts ! i)"
      using assms by (metis length_map nat_neq_iff nth_eq_iff_index_eq nth_map)
  qed simp
  then show ?thesis using assms(2) by simp
qed

lemma index_select:
  assumes "wf_manager m" "current m = Some i"
  shows "select m = Some (tabs m ! i)" "index m (select m) = Inr i"
proof -
  have i: "i < length (tabs m)" and d: "distinct (map widget (tabs m))"
    using assms by (auto simp: wf_manager_def)
  show s: "select m = Some (tabs m ! i)"
    using assms(2) i by (simp add: select_def)
  show "index m (select m) = Inr i"
    using i by (simp add: s index_def index_nth [OF d i])
qed

lemma select_tab_member:
  assumes "distinct (map widget (tabs m))" "e \<in> set (tabs m)"
  shows "\<exists>i. i < length (tabs m) \<and> tabs m ! i = e \<and> select_tab m e = Inr (m\<lparr>current := Some i\<rparr>)"
proof -
  from assms(2) obtain i where i: "i < length (tabs m)" "tabs m ! i = e"
    by (auto simp: in_set_conv_nth)
  have "index m (Some e) = Inr i"
    using index_nth [OF assms(1) i(1)] assms(2) i by (simp add: index_def)
  then show ?thesis using i by (auto simp: select_tab_def)
qed

lemma find_equivalent_prefix:
  "(\<forall>y \<in> set ys. equivalent stat t y = Inr False) \<Longrightarrow> equivalent stat t e = Inr True \<Longrightarrow>
   find_equivalent stat t (ys @ e # zs) = Inr (Some e)"
  by (induction ys) simp_all

lemma find_equivalent_None:
  "(\<forall>e \<in> set ts. equivalent stat t e = Inr False) \<Longrightarrow> find_equivalent stat t ts = Inr None"
  by (induction ts) simp_all

lemma wf_manager_add: "wf_manager m \<Longrightarrow> widget t \<notin> set (map widget (tabs m)) \<Longrightarrow> wf_manager (add m t)"
  by (auto simp: wf_manager_def add_def split: option.splits)

lemma select_tab_add:
  assumes "wf_manager m" "widget t \<notin> set (map widget (tabs m))"
  shows "select_tab (add m t) t = Inr ((add m t)\<lparr>current := Some (length (tabs m))\<rparr>)"
proof -
  have d: "distinct (map widget (tabs (add m t)))"
    using wf_manager_add [OF assms] by (simp add: wf_manager_def)
  have "index (add m t) (Some (tabs (add m t) ! length (tabs m))) = Inr (length (tabs m))"
    unfolding index_def using index_nth [OF d, of "length (tabs m)"]
    by (simp add: add_def)
  then show ?thesis by (simp add: select_tab_def add_def)
qed

text \<open>
  C1, as the code has it. Let \<open>t\<close> be a tab that is not in the manager yet (what
  \<open>add_tab\<close> asserts). If \<open>t\<close> is equivalent to a tab \<open>e\<close> of the manager and
  the calls of \<open>equivalent\<close> on the tabs before \<open>e\<close> return \<open>False\<close> (\<open>e\<close> is
  the first such tab and the loop reaches it; nothing is asked of the tabs after it),
  \<open>add_tab\<close> returns \<open>e\<close>, the tabs are as before, no \<open><<NewTab>>\<close> is generated,
  and with \<open>select=True\<close> the tab \<open>e\<close> is the selected one (with
  \<open>select=False\<close> the manager is unchanged). If \<open>equivalent\<close> returns \<open>False\<close>
  for every tab of the manager, \<open>t\<close> is appended at the end, \<open><<NewTab>>\<close> is
  generated with \<open>t\<close>, and \<open>t\<close> is selected when \<open>select=True\<close> or when it is
  the first tab; else the selection stays.
\<close>

theorem add_tab_deduplicates:
  assumes "wf_manager m" "widget t \<notin> set (map widget (tabs m))"
  shows "(\<forall>ys e zs. tabs m = ys @ e # zs \<and> (\<forall>y \<in> set ys. equivalent stat t y = Inr False)
              \<and> equivalent stat t e = Inr True
            \<longrightarrow> (\<exists>m'. add_tab stat m t sel = (Inr e, m') \<and> tabs m' = tabs m
                   \<and> generated m' = generated m
                   \<and> (if sel then select m' = Some e else m' = m)))
     \<and> ((\<forall>e \<in> set (tabs m). equivalent stat t e = Inr False)
            \<longrightarrow> (\<exists>m'. add_tab stat m t sel = (Inr t, m') \<and> tabs m' = tabs m @ [t]
                   \<and> generated m' = generated m @ [t]
                   \<and> (if sel \<or> tabs m = [] then select m' = Some t else select m' = select m)))"
proof (intro conjI allI impI)
  fix ys e zs
  assume h: "tabs m = ys @ e # zs \<and> (\<forall>y \<in> set ys. equivalent stat t y = Inr False)
              \<and> equivalent stat t e = Inr True"
  then have f: "find_equivalent stat t (tabs m) = Inr (Some e)"
    using find_equivalent_prefix [of ys stat t e zs] by simp
  have mem: "e \<in> set (tabs m)"
    using h by simp
  have d: "distinct (map widget (tabs m))"
    using assms(1) by (simp add: wf_manager_def)
  obtain i where i: "i < length (tabs m)" "tabs m ! i = e"
    "select_tab m e = Inr (m\<lparr>current := Some i\<rparr>)"
    using select_tab_member [OF d mem] by blast
  have s: "select (m\<lparr>current := Some i\<rparr>) = Some e"
    using i by (simp add: select_def)
  have "add_tab stat m t sel = (Inr e, if sel then m\<lparr>current := Some i\<rparr> else m)"
    using assms(2) f i(3) by (simp add: add_tab_def)
  then show "\<exists>m'. add_tab stat m t sel = (Inr e, m') \<and> tabs m' = tabs m
                   \<and> generated m' = generated m
                   \<and> (if sel then select m' = Some e else m' = m)"
    using s by (cases sel) simp_all
next
  assume "\<forall>e \<in> set (tabs m). equivalent stat t e = Inr False"
  then have n: "find_equivalent stat t (tabs m) = Inr None"
    by (rule find_equivalent_None)
  show "\<exists>m'. add_tab stat m t sel = (Inr t, m') \<and> tabs m' = tabs m @ [t]
                   \<and> generated m' = generated m @ [t]
                   \<and> (if sel \<or> tabs m = [] then select m' = Some t else select m' = select m)"
  proof (cases sel)
    case True
    have "add_tab stat m t sel =
        (Inr t, (add m t)\<lparr>current := Some (length (tabs m)), generated := generated m @ [t]\<rparr>)"
      using assms(2) n True select_tab_add [OF assms(1,2)]
      by (simp add: add_tab_def Let_def add_def)
    then show ?thesis
      using True by (simp add: add_def select_def)
  next
    case nsel: False
    have "add_tab stat m t sel = (Inr t, (add m t)\<lparr>generated := generated m @ [t]\<rparr>)"
      using assms(2) n nsel by (simp add: add_tab_def Let_def add_def)
    then show ?thesis
      using nsel assms(1)
      by (auto simp: add_def select_def wf_manager_def nth_append split: option.splits)
  qed
qed

text \<open>
  C6. With \<open>diff\<close> 1 or -1: on an empty manager \<open>select_another_tab\<close> returns
  \<open>False\<close> and changes nothing; so it does when the selected tab is the first and
  \<open>diff\<close> is -1, or the last and \<open>diff\<close> is 1; in every other case it returns
  \<open>True\<close> and the tab next to the selected one, in that direction, is selected.
\<close>

theorem select_another_tab_no_wraparound:
  assumes "wf_manager m" "diff = 1 \<or> diff = - 1"
  shows "(tabs m = [] \<longrightarrow> select_another_tab m diff = (Inr False, m))
     \<and> (\<forall>i. current m = Some i \<longrightarrow>
          (if (diff = - 1 \<and> i = 0) \<or> (diff = 1 \<and> i + 1 = length (tabs m))
           then select_another_tab m diff = (Inr False, m)
           else select_another_tab m diff = (Inr True, m\<lparr>current := Some (nat (int i + diff))\<rparr>)
                \<and> nat (int i + diff) < length (tabs m)
                \<and> select (m\<lparr>current := Some (nat (int i + diff))\<rparr>)
                    = Some (tabs m ! nat (int i + diff))))"
proof (intro conjI allI impI)
  assume "tabs m = []"
  then show "select_another_tab m diff = (Inr False, m)"
    using assms(2) by (auto simp: select_another_tab_def)
next
  fix i assume c: "current m = Some i"
  then have i: "i < length (tabs m)" and ne: "tabs m \<noteq> []"
    using assms(1) by (auto simp: wf_manager_def)
  have idx: "index m (select m) = Inr i"
    by (rule index_select(2) [OF assms(1) c])
  show "if (diff = - 1 \<and> i = 0) \<or> (diff = 1 \<and> i + 1 = length (tabs m))
           then select_another_tab m diff = (Inr False, m)
           else select_another_tab m diff = (Inr True, m\<lparr>current := Some (nat (int i + diff))\<rparr>)
                \<and> nat (int i + diff) < length (tabs m)
                \<and> select (m\<lparr>current := Some (nat (int i + diff))\<rparr>)
                    = Some (tabs m ! nat (int i + diff))"
    using assms(2) i ne idx
    by (auto simp: select_another_tab_def select_index_def select_def)
qed

text \<open>
  C1 does not hold for every tab and every manager. A tab that is in the manager
  already is not equivalent to any tab when it is a plain \<open>Tab\<close>, yet \<open>add_tab\<close>
  does not append it: the assertion fails. When \<open>os.stat\<close> fails on the path of
  an earlier tab of the manager, \<open>add_tab\<close> raises \<open>OSError\<close> before it reaches
  the tab the new one is equivalent to. And when the new tab is equivalent to no tab of
  the manager but \<open>os.stat\<close> fails on the path of one of them, \<open>add_tab\<close> raises
  \<open>OSError\<close> instead of appending the new tab.
\<close>

theorem add_tab_counterexample:
  "equivalent (\<lambda>p. Some 0) (Tab 1) (Tab 1) = Inr False
   \<and> add_tab (\<lambda>p. Some 0) \<lparr>tabs = [Tab 1], current = Some 0, generated = []\<rparr> (Tab 1) True
       = (Inl AssertionError, \<lparr>tabs = [Tab 1], current = Some 0, generated = []\<rparr>)
   \<and> equivalent (\<lambda>p. if p = ''/b'' then Some 7 else None)
        (FileTab 3 \<lparr>tab_path = Some ''/b'', save_hash = None, tokens = [],
           filetype_name = ''Plain Text'', title = ''b'', content = []\<rparr>)
        (FileTab 2 \<lparr>tab_path = Some ''/b'', save_hash = None, tokens = [],
           filetype_name = ''Plain Text'', title = ''b'', content = []\<rparr>) = Inr True
   \<and> add_tab (\<lambda>p. if p = ''/b'' then Some 7 else None)
        \<lparr>tabs = [FileTab 1 \<lparr>tab_path = Some ''/a'', save_hash = None, tokens = [],
                    filetype_name = ''Plain Text'', title = ''a'', content = []\<rparr>,
                  FileTab 2 \<lparr>tab_path = Some ''/b'', save_hash = None, tokens = [],
                    filetype_name = ''Plain Text'', title = ''b'', content = []\<rparr>],
          current = Some 0, generated = []\<rparr>
        (FileTab 3 \<lparr>tab_path = Some ''/b'', save_hash = None, tokens = [],
           filetype_name = ''Plain Text'', title = ''b'', content = []\<rparr>) True
       = (Inl OSError,
          \<lparr>tabs = [FileTab 1 \<lparr>tab_path = Some ''/a'', save_hash = None, tokens = [],
                    filetype_name = ''Plain Text'', title = ''a'', content = []\<rparr>,
                  FileTab 2 \<lparr>tab_path = Some ''/b'', save_hash = None, tokens = [],
                    filetype_name = ''Plain Text'', title = ''b'', content = []\<rparr>],
          current = Some 0, generated = []\<rparr>)
   \<and> equivalent (\<lambda>p. if p = ''/b'' then Some 7 else None)
        (FileTab 3 \<lparr>tab_path = Some ''/b'', save_hash = None, tokens = [],
           filetype_name = ''Plain Text'', title = ''b'', content = []\<rparr>)
        (FileTab 1 \<lparr>tab_path = Some ''/a'', save_hash = None, tokens = [],
           filetype_name = ''Plain Text'', title = ''a'', content = []\<rparr>) = Inl OSError
   \<and> add_tab (\<lambda>p. if p = ''/b'' then Some 7 else None)
        \<lparr>tabs = [FileTab 1 \<lparr>tab_path = Some ''/a'', save_hash = None, tokens = [],
                    filetype_name = ''Plain Text'', title = ''a'', content = []\<rparr>],
          current = Some 0, generated = []\<rparr>
        (FileTab 3 \<lparr>tab_path = Some ''/b'', save_hash = None, tokens = [],
           filetype_name = ''Plain Text'', title = ''b'', content = []\<rparr>) True
       = (Inl OSError,
          \<lparr>tabs = [FileTab 1 \<lparr>tab_path = Some ''/a'', save_hash = None, tokens = [],
                    filetype_name = ''Plain Text'', title = ''a'', content = []\<rparr>],
          current = Some 0, generated = []\<rparr>)"
  by (simp add: add_tab_def equivalent_def samefile_def)

text \<open>
  The theorem at work: the new tab is equivalent to the first tab of the manager, which
  is returned and selected although \<open>os.stat\<close> fails on the path of the second; and a
  new tab without a path is appended.
\<close>

theorem add_tab_deduplicates_witness:
  "(\<exists>m'. add_tab (\<lambda>p. if p = ''/b'' then Some 7 else None)
        \<lparr>tabs = [FileTab 2 \<lparr>tab_path = Some ''/b'', save_hash = None, tokens = [],
                    filetype_name = ''Plain Text'', title = ''b'', content = []\<rparr>,
                  FileTab 1 \<lparr>tab_path = Some ''/a'', save_hash = None, tokens = [],
                    filetype_name = ''Plain Text'', title = ''a'', content = []\<rparr>],
          current = Some 1, generated = []\<rparr>
        (FileTab 3 \<lparr>tab_path = Some ''/b'', save_hash = None, tokens = [],
           filetype_name = ''Plain Text'', title = ''b'', content = []\<rparr>) True
      = (Inr (FileTab 2 \<lparr>tab_path = Some ''/b'', save_hash = None, tokens = [],
                    filetype_name = ''Plain Text'', title = ''b'', content = []\<rparr>), m')
      \<and> length (tabs m') = 2
      \<and> generated m' = []
      \<and> select m' = Some (FileTab 2 \<lparr>tab_path = Some ''/b'', save_hash = None, tokens = [],
                    filetype_name = ''Plain Text'', title = ''b'', content = []\<rparr>))
   \<and> (\<exists>m'. add_tab (\<lambda>p. None) \<lparr>tabs = [Tab 5], current = Some 0, generated = []\<rparr>
        (FileTab 3 \<lparr>tab_path = None, save_hash = None, tokens = [],
           filetype_name = ''Plain Text'', title = ''New File'', content = []\<rparr>) True
      = (Inr (FileTab 3 \<lparr>tab_path = None, save_hash = None, tokens = [],
           filetype_name = ''Plain Text'', title = ''New File'', content = []\<rparr>), m')
      \<and> tabs m' = [Tab 5, FileTab 3 \<lparr>tab_path = None, save_hash = None, tokens = [],
           filetype_name = ''Plain Text'', title = ''New File'', content = []\<rparr>]
      \<and> generated m' = [FileTab 3 \<lparr>tab_path = None, save_hash = None, tokens = [],
           filetype_name = ''Plain Text'', title = ''New File'', content = []\<rparr>]
      \<and> select m' = Some (FileTab 3 \<lparr>tab_path = None, save_hash = None, tokens = [],
           filetype_name = ''Plain Text'', title = ''New File'', content = []\<rparr>))"
proof -
  let ?stat = "\<lambda>p. if p = ''/b'' then Some (7::nat) else None"
  let ?a = "FileTab 1 \<lparr>tab_path = Some ''/a'', save_hash = None, tokens = [],
                    filetype_name = ''Plain Text'', title = ''a'', content = []\<rparr>"
  let ?b = "FileTab 2 \<lparr>tab_path = Some ''/b'', save_hash = None, tokens = [],
                    filetype_name = ''Plain Text'', title = ''b'', content = []\<rparr>"
  let ?t = "FileTab 3 \<lparr>tab_path = Some ''/b'', save_hash = None, tokens = [],
           filetype_name = ''Plain Text'', title = ''b'', content = []\<rparr>"
  let ?n = "FileTab 3 \<lparr>tab_path = None, save_hash = None, tokens = [],
           filetype_name = ''Plain Text'', title = ''New File'', content = []\<rparr>"
  let ?m = "\<lparr>tabs = [?b, ?a], current = Some 1, generated = []\<rparr>"
  let ?m1 = "\<lparr>tabs = [Tab 5], current = Some 0, generated = []\<rparr>"
  have eq: "equivalent ?stat ?t ?b = Inr True" "equivalent (\<lambda>p. None) ?n (Tab 5) = Inr False"
    by (simp_all add: equivalent_def samefile_def)
  have wf: "wf_manager ?m" "wf_manager ?m1"
    by (simp_all add: wf_manager_def)
  have fresh: "widget ?t \<notin> set (map widget (tabs ?m))" "widget ?n \<notin> set (map widget (tabs ?m1))"
    by simp_all
  have split: "tabs ?m = [] @ ?b # [?a] \<and> (\<forall>y \<in> set []. equivalent ?stat ?t y = Inr False)
      \<and> equivalent ?stat ?t ?b = Inr True"
    using eq(1) by simp
  have none: "\<forall>e \<in> set (tabs ?m1). equivalent (\<lambda>p. None) ?n e = Inr False"
    using eq(2) by simp
  have 1: "\<exists>m'. add_tab ?stat ?m ?t True = (Inr ?b, m') \<and> tabs m' = tabs ?m
                \<and> generated m' = generated ?m \<and> select m' = Some ?b"
    using add_tab_deduplicates [OF wf(1) fresh(1), of ?stat True] split by (simp only: if_True) blast
  have 2: "\<exists>m'. add_tab (\<lambda>p. None) ?m1 ?n True = (Inr ?n, m') \<and> tabs m' = tabs ?m1 @ [?n]
                \<and> generated m' = generated ?m1 @ [?n] \<and> select m' = Some ?n"
    using add_tab_deduplicates [OF wf(2) fresh(2), of "\<lambda>p. None" True] none by simp
  from 1 obtain m' where e: "add_tab ?stat ?m ?t True = (Inr ?b, m')" "tabs m' = tabs ?m"
    "generated m' = generated ?m" "select m' = Some ?b"
    by blast
  have l: "length (tabs m') = 2" "generated m' = []"
    using e(2,3) by simp_all
  from 2 obtain m'' where n: "add_tab (\<lambda>p. None) ?m1 ?n True = (Inr ?n, m'')"
    "tabs m'' = tabs ?m1 @ [?n]" "generated m'' = generated ?m1 @ [?n]" "select m'' = Some ?n"
    by blast
  have l2: "tabs m'' = [Tab 5, ?n]" "generated m'' = [?n]"
    using n(2,3) by simp_all
  show ?thesis
    by (intro conjI exI [of _ m'] exI [of _ m'']) (rule e(1) e(4) l n(1) n(4) l2)+
qed

theorem select_another_tab_no_wraparound_witness:
  "select_another_tab \<lparr>tabs = [], current = None, generated = []\<rparr> 1
     = (Inr False, \<lparr>tabs = [], current = None, generated = []\<rparr>)
   \<and> select_another_tab \<lparr>tabs = [Tab 1, Tab 2], current = Some 0, generated = []\<rparr> (- 1)
     = (Inr False, \<lparr>tabs = [Tab 1, Tab 2], current = Some 0, generated = []\<rparr>)
   \<and> select_another_tab \<lparr>tabs = [Tab 1, Tab 2], current = Some 1, generated = []\<rparr> 1
     = (Inr False, \<lparr>tabs = [Tab 1, Tab 2], current = Some 1, generated = []\<rparr>)
   \<and> select_another_tab \<lparr>tabs = [Tab 1, Tab 2], current = Some 0, generated = []\<rparr> 1
     = (Inr True, \<lparr>tabs = [Tab 1, Tab 2], current = Some 1, generated = []\<rparr>)"
proof -
  have wf: "wf_manager \<lparr>tabs = [], current = None, generated = []\<rparr>"
    "wf_manager \<lparr>tabs = [Tab 1, Tab 2], current = Some 0, generated = []\<rparr>"
    "wf_manager \<lparr>tabs = [Tab 1, Tab 2], current = Some 1, generated = []\<rparr>"
    by (simp_all add: wf_manager_def)
  show ?thesis
    using select_another_tab_no_wraparound [OF wf(1), of 1]
      select_another_tab_no_wraparound [OF wf(2), of "- 1"]
      select_another_tab_no_wraparound [OF wf(3), of 1]
      select_another_tab_no_wraparound [OF wf(2), of 1]
    by simp
qed

subsection \<open>The saved state of a file tab\<close>

lemma join_lines_Cons: "ls \<noteq> [] \<Longrightarrow> join_lines (l # ls) = l @ newline # join_lines ls"
  by (cases ls) simp_all

lemma join_lines_append:
  "ys \<noteq> [] \<Longrightarrow> join_lines (xs @ ys) = concat (map (\<lambda>l. l @ [newline]) xs) @ join_lines ys"
  by (induction xs) (simp_all add: join_lines_Cons)

lemma split_lines_nonempty: "split_lines c \<noteq> []"
  by (induction c) (auto split: list.splits)

lemma join_split_lines: "join_lines (split_lines c) = c"
proof (induction c)
  case Nil
  then show ?case by simp
next
  case (Cons x c)
  obtain l ls where "split_lines c = l # ls"
    using split_lines_nonempty [of c] by (cases "split_lines c") auto
  then show ?case using Cons by (cases ls) auto
qed

lemma concat_iter_chunks_from:
  "1 \<le> start \<Longrightarrow> start \<le> length ls \<Longrightarrow>
   concat (iter_chunks_from ls start) = join_lines (drop (start - 1) ls)"
proof (induction ls start rule: iter_chunks_from.induct)
  case (1 ls start)
  show ?case
  proof (cases "index_line ls (start + 100) = index_end ls")
    case True
    then show ?thesis
      by (subst iter_chunks_from.simps) (simp add: Let_def get_to_end_def)
  next
    case False
    then have le: "start + 100 \<le> length ls"
      by (auto simp: index_line_def index_end_def min_def split: if_splits)
    have "start + 100 - 1 = start + 99"
      by simp
    then have IH: "concat (iter_chunks_from ls (start + 100)) = join_lines (drop (start + 99) ls)"
      using 1(1) [OF refl False] le by (simp add: add.commute)
    have "100 + (start - 1) = start + 99"
      using 1(2) by simp
    then have e: "drop (start + 99) ls = drop 100 (drop (start - 1) ls)"
      by (simp only: drop_drop)
    have d: "drop (start - 1) ls = take 100 (drop (start - 1) ls) @ drop (start + 99) ls"
      by (simp only: e append_take_drop_id)
    have ne: "drop (start + 99) ls \<noteq> []"
      using le by simp
    have "join_lines (drop (start - 1) ls) =
        concat (map (\<lambda>l. l @ [newline]) (take 100 (drop (start - 1) ls))) @ join_lines (drop (start + 99) ls)"
      by (subst d) (rule join_lines_append [OF ne])
    moreover have "iter_chunks_from ls start =
        get_lines ls start (start + 100) # iter_chunks_from ls (start + 100)"
      using False by (subst iter_chunks_from.simps) (simp add: Let_def)
    moreover have "get_lines ls start (start + 100) =
        concat (map (\<lambda>l. l @ [newline]) (take 100 (drop (start - 1) ls)))"
      by (simp add: get_lines_def)
    ultimately show ?thesis
      using IH by (simp only: concat.simps)
  qed
qed

text \<open>The chunks, put together, are the content: the digest is of all of it.\<close>

lemma concat_iter_chunks: "concat (iter_chunks self) = content self"
  unfolding iter_chunks_def
  using concat_iter_chunks_from [of 1 "split_lines (content self)"] split_lines_nonempty [of "content self"]
  by (simp add: join_split_lines Suc_le_eq)

lemma get_hash_cong: "content t = content t' \<Longrightarrow> get_hash E t = get_hash E t'"
  by (simp add: get_hash_def iter_chunks_def)

lemma update_title_fields [simp]:
  "content (update_title E t) = content t"
  "save_hash (update_title E t) = save_hash t"
  "tab_path (update_title E t) = tab_path t"
  by (simp_all add: update_title_def Let_def)

lemma get_hash_update_title [simp]: "get_hash E (update_title E t) = get_hash E t"
  by (rule get_hash_cong) simp

lemma save_hash_edits:
  "save_hash (fold (\<lambda>c t. edit t c) cs t) = save_hash t"
  by (induction cs arbitrary: t) (simp_all add: edit_def)

lemma save_hash_mark_saved: "save_hash (mark_saved E self) = Some (get_hash E self)"
  by (simp add: mark_saved_def)

lemma get_hash_mark_saved [simp]: "get_hash E (mark_saved E self) = get_hash E self"
  by (rule get_hash_cong) (simp add: mark_saved_def)

text \<open>
  C2. \<open>is_saved\<close> is true right after \<open>mark_saved\<close>; it is true exactly when the
  digest of the content as it is equals the stored one, which \<open>mark_saved\<close> sets to
  the digest of the content then; so after any edits that follow a \<open>mark_saved\<close> it
  is true exactly when the digest is the one of that time, and an edit that changes the
  digest makes it false.
\<close>

theorem is_saved_iff_digest_unchanged:
  "is_saved E (mark_saved E self)
   \<and> (is_saved E self \<longleftrightarrow> save_hash self = Some (get_hash E self))
   \<and> save_hash (mark_saved E self) = Some (get_hash E self)
   \<and> (is_saved E (fold (\<lambda>c t. edit t c) cs (mark_saved E self)) \<longleftrightarrow>
        get_hash E (fold (\<lambda>c t. edit t c) cs (mark_saved E self)) = get_hash E self)
   \<and> (get_hash E (edit (mark_saved E self) c) \<noteq> get_hash E self \<longrightarrow>
        \<not> is_saved E (edit (mark_saved E self) c))"
proof -
  have 1: "is_saved E (mark_saved E self)"
    by (simp add: is_saved_def save_hash_mark_saved)
  have 2: "is_saved E self \<longleftrightarrow> save_hash self = Some (get_hash E self)"
    by (auto simp: is_saved_def)
  have 3: "is_saved E (fold (\<lambda>c t. edit t c) cs (mark_saved E self)) \<longleftrightarrow>
        get_hash E (fold (\<lambda>c t. edit t c) cs (mark_saved E self)) = get_hash E self"
    by (simp add: is_saved_def save_hash_edits save_hash_mark_saved)
  have 4: "get_hash E (edit (mark_saved E self) c) \<noteq> get_hash E self \<longrightarrow>
        \<not> is_saved E (edit (mark_saved E self) c)"
    by (simp add: is_saved_def edit_def save_hash_mark_saved)
  show ?thesis
    using 1 2 3 4 save_hash_mark_saved by blast
qed

theorem is_saved_iff_digest_unchanged_witness:
  "is_saved \<lparr>encoding = ''utf-8'', encode = (\<lambda>enc t. t), md5_hexdigest = (\<lambda>b. b)\<rparr>
     (mark_saved \<lparr>encoding = ''utf-8'', encode = (\<lambda>enc t. t), md5_hexdigest = (\<lambda>b. b)\<rparr>
        \<lparr>tab_path = None, save_hash = None, tokens = [], filetype_name = ''Plain Text'',
         title = [], content = ''a''\<rparr>)
   \<and> \<not> is_saved \<lparr>encoding = ''utf-8'', encode = (\<lambda>enc t. t), md5_hexdigest = (\<lambda>b. b)\<rparr>
     (edit
       (mark_saved \<lparr>encoding = ''utf-8'', encode = (\<lambda>enc t. t), md5_hexdigest = (\<lambda>b. b)\<rparr>
          \<lparr>tab_path = None, save_hash = None, tokens = [], filetype_name = ''Plain Text'',
           title = [], content = ''a''\<rparr>) ''ab'')"
proof -
  let ?E = "\<lparr>encoding = ''utf-8'', encode = (\<lambda>enc t. t), md5_hexdigest = (\<lambda>b. b)\<rparr>"
  let ?t = "\<lparr>tab_path = None, save_hash = None, tokens = [], filetype_name = ''Plain Text'',
         title = [], content = ''a''\<rparr>"
  have "get_hash ?E (edit (mark_saved ?E ?t) ''ab'') = ''ab''" "get_hash ?E ?t = ''a''"
    by code_simp+
  then have "get_hash ?E (edit (mark_saved ?E ?t) ''ab'') \<noteq> get_hash ?E ?t"
    by simp
  then show ?thesis
    using is_saved_iff_digest_unchanged [of ?E ?t "[]" "''ab''"] by blast
qed

subsection \<open>Writing with a backup\<close>

lemma path_exists_map_of: "path_exists fs q \<longleftrightarrow> map_of fs q \<noteq> None"
  by (simp add: path_exists_def map_of_eq_None_iff)

lemma backup_name_fresh: "\<not> path_exists fs (backup_name fs name ext)"
  by (induction fs name ext rule: backup_name.induct) (subst backup_name.simps, simp)

text \<open>
  What has been written to the file object is on the disk or in the buffer; only what
  it has written out is on the disk.
\<close>

lemma flushed_pending: "flushed buf evs @ pending buf evs = buf @ written evs"
proof (induction buf evs rule: flushed.induct)
  case (3 buf n evs)
  have "take n buf @ flushed (drop n buf) evs @ pending (drop n buf) evs
      = take n buf @ drop n buf @ written evs"
    using 3 by simp
  then show ?case by simp
qed simp_all

lemma run_body_effect:
  assumes "map_of fs p = Some c"
  shows "fst (run_body fs p buf evs) = first_raise evs"
    and "map_of (fst (snd (run_body fs p buf evs))) = (map_of fs)(p \<mapsto> c @ flushed buf evs)"
    and "snd (snd (run_body fs p buf evs)) = pending buf evs"
proof -
  have "fst (run_body fs p buf evs) = first_raise evs
    \<and> map_of (fst (snd (run_body fs p buf evs))) = (map_of fs)(p \<mapsto> c @ flushed buf evs)
    \<and> snd (snd (run_body fs p buf evs)) = pending buf evs"
    using assms
  proof (induction fs p buf evs arbitrary: c rule: run_body.induct)
    case (1 fs p buf)
    then show ?case by (simp add: fun_upd_idem)
  next
    case (2 fs p buf s evs)
    then show ?case by simp
  next
    case (3 fs p buf n evs)
    have "map_of (file_write fs p (take n buf)) p = Some (c @ take n buf)"
      using 3(2) by (simp add: file_write_def update_conv')
    from 3(1) [OF this] show ?case
      using 3(2) by (auto simp: file_write_def update_conv' fun_eq_iff)
  next
    case (4 fs p buf e evs)
    then show ?case by (simp add: fun_upd_idem)
  qed
  then show "fst (run_body fs p buf evs) = first_raise evs"
    and "map_of (fst (snd (run_body fs p buf evs))) = (map_of fs)(p \<mapsto> c @ flushed buf evs)"
    and "snd (snd (run_body fs p buf evs)) = pending buf evs"
    by simp_all
qed

lemma with_file_effect:
  "fst (with_file fault fs p body) = raised fault body"
  "map_of fs p = Some A \<Longrightarrow>
   map_of (fst (snd (with_file fault fs p body))) = (map_of fs)(p \<mapsto> on_disk fault A body)"
  "snd (snd (with_file fault fs p body)) = (if fault = None then pending [] body else [])"
proof -
  have e: "map_of (AList.update p [] fs) p = Some []"
    by (simp add: update_conv')
  show "fst (with_file fault fs p body) = raised fault body"
    using run_body_effect(1) [OF e, of "[]" body]
    by (cases fault) (auto simp: with_file_def open_w_def raised_def)
  show "map_of (fst (snd (with_file fault fs p body))) = (map_of fs)(p \<mapsto> on_disk fault A body)"
    if "map_of fs p = Some A"
    using run_body_effect(2) [OF e, of "[]" body] that
    by (cases fault) (auto simp: with_file_def open_w_def update_conv' fun_upd_idem)
  show "snd (snd (with_file fault fs p body)) = (if fault = None then pending [] body else [])"
    using run_body_effect(3) [OF e, of "[]" body]
    by (cases fault) (auto simp: with_file_def open_w_def)
qed

text \<open>
  The statement on a destination that exists, when the copy to the backup is made: the
  file system \<open>fs2\<close> when the body has run holds the backup and, at the destination,
  what the file object has written out; what follows depends on the exception raised.
\<close>

lemma backup_open_existing:
  assumes "map_of fs p = Some A" "copy_fault F = None" "splitext p = (name, ext)"
  shows "\<exists>fs2 buf.
       map_of fs2 = (map_of fs)(backup_name fs name ext \<mapsto> A,
                        p \<mapsto> on_disk (open_fault F) A body)
     \<and> buf = (if open_fault F = None then pending [] body else [])
     \<and> backup_open splitext F fs p body =
         (case raised (open_fault F) body of
            Some e \<Rightarrow>
              (if is_Exception e then
                 (case move_fault F of
                    Some e' \<Rightarrow> (Some e', fs2, buf)
                  | None \<Rightarrow> (Some e, AList.delete (backup_name fs name ext) (AList.update p A fs2), buf))
               else (Some e, fs2, buf))
          | None \<Rightarrow>
              (case remove_fault F of
                 Some e' \<Rightarrow> (Some e', fs2, buf)
               | None \<Rightarrow> (None, AList.delete (backup_name fs name ext) fs2, buf)))"
proof -
  define b where "b = backup_name fs name ext"
  have ex: "path_exists fs p"
    using assms(1) by (simp add: path_exists_map_of)
  have nb: "map_of fs b = None"
    using backup_name_fresh [of fs name ext] by (simp add: b_def path_exists_map_of)
  then have bp: "b \<noteq> p"
    using assms(1) by auto
  define fs1 where "fs1 = AList.update b A fs"
  have c: "copy (copy_fault F) fs p b = Inr fs1"
    using assms(1,2) by (simp add: copy_def fs1_def)
  have m1: "map_of fs1 = (map_of fs)(b \<mapsto> A)"
    by (simp add: fs1_def update_conv')
  obtain r fs2 buf where w: "with_file (open_fault F) fs1 p body = (r, fs2, buf)"
    by (cases "with_file (open_fault F) fs1 p body")
  have r: "r = raised (open_fault F) body"
    and buf: "buf = (if open_fault F = None then pending [] body else [])"
    using with_file_effect(1,3) [of "open_fault F" fs1 p body] w by simp_all
  have p1: "map_of fs1 p = Some A"
    using m1 assms(1) bp by simp
  have m2: "map_of fs2 = (map_of fs1)(p \<mapsto> on_disk (open_fault F) A body)"
    using with_file_effect(2) [OF p1, of "open_fault F" body] w by simp
  have m2': "map_of fs2 = (map_of fs)(b \<mapsto> A, p \<mapsto> on_disk (open_fault F) A body)"
    unfolding m2 m1 by simp
  have b2: "map_of fs2 b = Some A"
    using m2' bp by simp
  have mv: "move None fs2 b p = Inr (AList.delete b (AList.update p A fs2))"
    by (simp add: move_def b2)
  have rm: "remove None fs2 b = Inr (AList.delete b fs2)"
    by (simp add: remove_def path_exists_map_of b2)
  have fm: "move (Some e') fs2 b p = Inl e'" "remove (Some e') fs2 b = Inl e'" for e'
    by (simp_all add: move_def remove_def)
  have "backup_open splitext F fs p body =
      (case copy (copy_fault F) fs p b of
              Inl (e, fs') \<Rightarrow> (Some e, fs', [])
            | Inr fs1 \<Rightarrow>
                (case with_file (open_fault F) fs1 p body of
                   (Some e, fs2, buf) \<Rightarrow>
                     (if is_Exception e then
                        (case move (move_fault F) fs2 b p of
                           Inl e' \<Rightarrow> (Some e', fs2, buf)
                         | Inr fs3 \<Rightarrow> (Some e, fs3, buf))
                      else (Some e, fs2, buf))
                 | (None, fs2, buf) \<Rightarrow>
                     (case remove (remove_fault F) fs2 b of
                        Inl e' \<Rightarrow> (Some e', fs2, buf)
                      | Inr fs3 \<Rightarrow> (None, fs3, buf))))"
    unfolding backup_open_def b_def using ex assms(3) by (simp add: Let_def)
  then have res: "backup_open splitext F fs p body =
         (case r of
            Some e \<Rightarrow>
              (if is_Exception e then
                 (case move_fault F of
                    Some e' \<Rightarrow> (Some e', fs2, buf)
                  | None \<Rightarrow> (Some e, AList.delete b (AList.update p A fs2), buf))
               else (Some e, fs2, buf))
          | None \<Rightarrow>
              (case remove_fault F of
                 Some e' \<Rightarrow> (Some e', fs2, buf)
               | None \<Rightarrow> (None, AList.delete b fs2, buf)))"
    by (simp add: c w mv rm fm split: option.splits)
  show ?thesis
    using m2' buf res unfolding r b_def by blast
qed

lemma backup_open_copy_fails:
  assumes "path_exists fs p" "copy_fault F = Some (e, part)"
  shows "backup_open splitext F fs p body =
     (Some e,
      (case part of
         None \<Rightarrow> fs
       | Some c \<Rightarrow> AList.update (backup_name fs (fst (splitext p)) (snd (splitext p))) c fs),
      [])"
  using assms by (cases "splitext p"; cases part) (simp_all add: backup_open_def copy_def Let_def)




subsection \<open>What saving returns\<close>

text \<open>The exception the \<open>with\<close> statement raises is the one \<open>with_raises\<close> gives.\<close>

lemma backup_open_raises:
  "fst (backup_open splitext F fs p body) = with_raises F (path_exists fs p) body"
proof (cases "path_exists fs p")
  case False
  then show ?thesis
    by (simp add: backup_open_def with_raises_def with_file_effect(1))
next
  case True
  then obtain A where A: "map_of fs p = Some A"
    by (auto simp: path_exists_map_of)
  show ?thesis
  proof (cases "copy_fault F")
    case (Some x)
    obtain e part where x: "x = (e, part)"
      by (cases x)
    show ?thesis
      using True Some backup_open_copy_fails [OF True Some [unfolded x], of splitext body]
      by (simp add: with_raises_def x)
  next
    case None
    obtain name ext where sx: "splitext p = (name, ext)"
      by (cases "splitext p")
    from backup_open_existing [where splitext = splitext and body = body, OF A None sx]
    obtain fs2 buf where
      "backup_open splitext F fs p body =
         (case raised (open_fault F) body of
            Some e \<Rightarrow>
              (if is_Exception e then
                 (case move_fault F of
                    Some e' \<Rightarrow> (Some e', fs2, buf)
                  | None \<Rightarrow> (Some e, AList.delete (backup_name fs name ext) (AList.update p A fs2), buf))
               else (Some e, fs2, buf))
          | None \<Rightarrow>
              (case remove_fault F of
                 Some e' \<Rightarrow> (Some e', fs2, buf)
               | None \<Rightarrow> (None, AList.delete (backup_name fs name ext) fs2, buf)))"
      by blast
    then show ?thesis
      using True None by (simp add: with_raises_def split: option.splits)
  qed
qed

lemma save_to_returns:
  "fst (save_to E splitext S F write_fault fs self p) =
     (case with_raises F (path_exists fs p) (save_body E S self write_fault) of
        None \<Rightarrow> Inr PTrue
      | Some e \<Rightarrow> if e = OSError \<or> e = UnicodeError then Inr PNone else Inl e)"
  using backup_open_raises [of splitext F fs p "save_body E S self write_fault"]
  by (cases "backup_open splitext F fs p (save_body E S self write_fault)")
     (auto simp: save_to_def split: option.splits)

text \<open>
  C9. \<open>save_as\<close> returns \<open>False\<close> when the prompt is cancelled. When a path is
  chosen it returns \<open>True\<close>, also when the \<open>with\<close> statement of \<open>save\<close> raises
  \<open>OSError\<close> or \<open>UnicodeError\<close>. \<open>save\<close> on a tab with a path returns
  \<open>True\<close> when nothing is raised, and \<open>None\<close> when \<open>OSError\<close> or
  \<open>UnicodeError\<close> is; and then \<open>can_be_closed\<close>, on an unsaved tab and the answer
  yes, returns \<open>None\<close> as well.
\<close>

theorem save_return_values:
  "save_as E splitext S [] F write_fault fs self = (Inr PFalse, fs, self)
   \<and> (answer \<noteq> []
        \<and> (\<forall>e. with_raises F (path_exists fs answer)
                 (save_body E S (path_setter E self (Some answer)) write_fault) = Some e
              \<longrightarrow> e = OSError \<or> e = UnicodeError)
      \<longrightarrow> fst (save_as E splitext S answer F write_fault fs self) = Inr PTrue)
   \<and> (tab_path self = Some p
        \<and> with_raises F (path_exists fs p) (save_body E S self write_fault) = None
      \<longrightarrow> fst (save E splitext S answer F write_fault fs self) = Inr PTrue)
   \<and> (tab_path self = Some p
        \<and> (with_raises F (path_exists fs p) (save_body E S self write_fault) = Some OSError
           \<or> with_raises F (path_exists fs p) (save_body E S self write_fault) = Some UnicodeError)
      \<longrightarrow> fst (save E splitext S answer F write_fault fs self) = Inr PNone
          \<and> (\<not> is_saved E self \<longrightarrow>
                fst (can_be_closed E splitext S (Some True) answer F write_fault fs self)
                  = Inr PNone))"
proof (intro conjI)
  show "save_as E splitext S [] F write_fault fs self = (Inr PFalse, fs, self)"
    by (simp add: save_as_def)
next
  let ?self' = "path_setter E self (Some answer)"
  show "answer \<noteq> []
        \<and> (\<forall>e. with_raises F (path_exists fs answer) (save_body E S ?self' write_fault) = Some e
              \<longrightarrow> e = OSError \<or> e = UnicodeError)
      \<longrightarrow> fst (save_as E splitext S answer F write_fault fs self) = Inr PTrue"
  proof
    assume h: "answer \<noteq> []
        \<and> (\<forall>e. with_raises F (path_exists fs answer) (save_body E S ?self' write_fault) = Some e
              \<longrightarrow> e = OSError \<or> e = UnicodeError)"
    then have "\<exists>r. fst (save_to E splitext S F write_fault fs ?self' answer) = Inr r"
      unfolding save_to_returns by (auto split: option.splits)
    then show "fst (save_as E splitext S answer F write_fault fs self) = Inr PTrue"
      using h by (cases "save_to E splitext S F write_fault fs ?self' answer")
        (auto simp: save_as_def)
  qed
next
  show "tab_path self = Some p
        \<and> with_raises F (path_exists fs p) (save_body E S self write_fault) = None
      \<longrightarrow> fst (save E splitext S answer F write_fault fs self) = Inr PTrue"
    by (simp add: save_def save_to_returns)
next
  show "tab_path self = Some p
        \<and> (with_raises F (path_exists fs p) (save_body E S self write_fault) = Some OSError
           \<or> with_raises F (path_exists fs p) (save_body E S self write_fault) = Some UnicodeError)
      \<longrightarrow> fst (save E splitext S answer F write_fault fs self) = Inr PNone
          \<and> (\<not> is_saved E self \<longrightarrow>
                fst (can_be_closed E splitext S (Some True) answer F write_fault fs self)
                  = Inr PNone)"
    by (auto simp: save_def save_to_returns can_be_closed_def)
qed

theorem save_return_values_witness:
  "fst (save_as \<lparr>encoding = ''utf-8'', encode = (\<lambda>enc t. t), md5_hexdigest = (\<lambda>b. b)\<rparr>
      (\<lambda>p. (take (length p - 4) p, drop (length p - 4) p))
      \<lparr>stream_encode = (\<lambda>enc before t. t), flush_after = (\<lambda>k. None)\<rparr> ''g.txt''
      \<lparr>copy_fault = None, open_fault = Some (OSError, False), move_fault = None, remove_fault = None\<rparr> None
      [(''f.txt'', ''A'')]
      \<lparr>tab_path = Some ''f.txt'', save_hash = Some ''A'', tokens = [],
       filetype_name = ''Plain Text'', title = ''*f.txt*'', content = ''new''\<rparr>) = Inr PTrue
   \<and> fst (save \<lparr>encoding = ''utf-8'', encode = (\<lambda>enc t. t), md5_hexdigest = (\<lambda>b. b)\<rparr>
      (\<lambda>p. (take (length p - 4) p, drop (length p - 4) p))
      \<lparr>stream_encode = (\<lambda>enc before t. t), flush_after = (\<lambda>k. None)\<rparr> [] no_faults None
      [(''f.txt'', ''A'')]
      \<lparr>tab_path = Some ''f.txt'', save_hash = Some ''A'', tokens = [],
       filetype_name = ''Plain Text'', title = ''*f.txt*'', content = ''new''\<rparr>) = Inr PTrue
   \<and> fst (save \<lparr>encoding = ''utf-8'', encode = (\<lambda>enc t. t), md5_hexdigest = (\<lambda>b. b)\<rparr>
      (\<lambda>p. (take (length p - 4) p, drop (length p - 4) p))
      \<lparr>stream_encode = (\<lambda>enc before t. t), flush_after = (\<lambda>k. None)\<rparr> [] no_faults
      (Some (0, OSError)) [(''f.txt'', ''A'')]
      \<lparr>tab_path = Some ''f.txt'', save_hash = Some ''A'', tokens = [],
       filetype_name = ''Plain Text'', title = ''*f.txt*'', content = ''new''\<rparr>) = Inr PNone
   \<and> fst (can_be_closed \<lparr>encoding = ''utf-8'', encode = (\<lambda>enc t. t), md5_hexdigest = (\<lambda>b. b)\<rparr>
      (\<lambda>p. (take (length p - 4) p, drop (length p - 4) p))
      \<lparr>stream_encode = (\<lambda>enc before t. t), flush_after = (\<lambda>k. None)\<rparr> (Some True) [] no_faults
      (Some (0, OSError)) [(''f.txt'', ''A'')]
      \<lparr>tab_path = Some ''f.txt'', save_hash = Some ''A'', tokens = [],
       filetype_name = ''Plain Text'', title = ''*f.txt*'', content = ''new''\<rparr>) = Inr PNone"
proof -
  let ?E = "\<lparr>encoding = ''utf-8'', encode = (\<lambda>enc t. t), md5_hexdigest = (\<lambda>b. b)\<rparr>"
  let ?sx = "\<lambda>p::string. (take (length p - 4) p, drop (length p - 4) p)"
  let ?S = "\<lparr>stream_encode = (\<lambda>enc before t. t), flush_after = (\<lambda>k. None)\<rparr>"
  let ?F = "\<lparr>copy_fault = None, open_fault = Some (OSError, False), move_fault = None, remove_fault = None\<rparr>"
  let ?fs = "[(''f.txt'', ''A'')]"
  let ?t = "\<lparr>tab_path = Some ''f.txt'', save_hash = Some ''A'', tokens = [],
       filetype_name = ''Plain Text'', title = ''*f.txt*'', content = ''new''\<rparr>"
  have r1: "with_raises ?F (path_exists ?fs ''g.txt'')
      (save_body ?E ?S (path_setter ?E ?t (Some ''g.txt'')) None) = Some OSError"
    by (simp add: with_raises_def raised_def path_exists_def)
  have r2: "with_raises no_faults (path_exists ?fs ''f.txt'') (save_body ?E ?S ?t None) = None"
    by code_simp
  have r3: "with_raises no_faults (path_exists ?fs ''f.txt'') (save_body ?E ?S ?t (Some (0, OSError)))
      = Some OSError"
    by code_simp
  have ns: "\<not> is_saved ?E ?t"
    by code_simp
  show ?thesis
    using save_return_values [of ?E ?sx ?S ?F None ?fs ?t "''g.txt''" "''f.txt''"]
      save_return_values [of ?E ?sx ?S no_faults None ?fs ?t "[]" "''f.txt''"]
      save_return_values [of ?E ?sx ?S no_faults "Some (0, OSError)" ?fs ?t "[]" "''f.txt''"]
      r1 r2 r3 ns
    by simp
qed

end
